theory Spec2Isabelle
  imports Complex_Main
begin

section \<open>Errors\<close>

text \<open>
  The script \<^verbatim>\<open>bigram.py\<close> has no exception handler: every exception raised by Python or
  by the tensor library ends the run. Each raise is a value of the type \<open>error\<close>, and a
  computation that may raise returns \<open>error + 'a\<close> with \<open>Inl\<close> for the exception.
\<close>

datatype error = KeyError | IndexError | RuntimeError | ValueError | ZeroDivisionError

section \<open>Vocabulary and character codec (lines 28-36)\<close>

text \<open>
  \<^verbatim>\<open>chars = sorted(set(text))\<close>, \<^verbatim>\<open>vocab_size = len(chars)\<close>. A Python string is a
  sequence of code points ordered by their number; the model is polymorphic in a linearly
  ordered type of characters.
\<close>

definition chars :: "'a::linorder list \<Rightarrow> 'a list" where
  "chars text = sorted_list_of_set (set text)"

definition vocab_size :: "'a::linorder list \<Rightarrow> nat" where
  "vocab_size text = length (chars text)"

text \<open>Python's \<^verbatim>\<open>enumerate\<close>, counting from a given start.\<close>

fun enumerate_from :: "int \<Rightarrow> 'a list \<Rightarrow> (int \<times> 'a) list" where
  "enumerate_from i [] = []"
| "enumerate_from i (x # xs) = (i, x) # enumerate_from (i + 1) xs"

text \<open>
  \<^verbatim>\<open>stoi = {ch:i for i, ch in enumerate(chars)}\<close> and
  \<^verbatim>\<open>itos = {i:ch for i, ch in enumerate(chars)}\<close>: a dict comprehension stores the
  pairs in order, a later pair replacing an earlier one with the same key.
\<close>

definition stoi :: "'a::linorder list \<Rightarrow> ('a \<rightharpoonup> int)" where
  "stoi text = foldl (\<lambda>d (i, ch). d(ch \<mapsto> i)) Map.empty (enumerate_from 0 (chars text))"

definition itos :: "'a::linorder list \<Rightarrow> (int \<rightharpoonup> 'a)" where
  "itos text = foldl (\<lambda>d (i, ch). d(i \<mapsto> ch)) Map.empty (enumerate_from 0 (chars text))"

text \<open>
  \<^verbatim>\<open>encode = lambda x: [stoi[ch] for ch in x]\<close>: a missing key raises \<^verbatim>\<open>KeyError\<close> at the
  first character that is not in the vocabulary.
\<close>

fun encode :: "'a::linorder list \<Rightarrow> 'a list \<Rightarrow> error + int list" where
  "encode text [] = Inr []"
| "encode text (ch # x) =
     (case stoi text ch of
        None \<Rightarrow> Inl KeyError
      | Some i \<Rightarrow> (case encode text x of Inl e \<Rightarrow> Inl e | Inr r \<Rightarrow> Inr (i # r)))"

text \<open>
  \<^verbatim>\<open>decode = lambda x: ''.join([itos[i] for i in x])\<close>: \<^verbatim>\<open>itos\<close> is a dict, so a negative
  id is a missing key like any other. Joining one-character strings gives the string of
  these characters.
\<close>

fun decode :: "'a::linorder list \<Rightarrow> int list \<Rightarrow> error + 'a list" where
  "decode text [] = Inr []"
| "decode text (i # x) =
     (case itos text i of
        None \<Rightarrow> Inl KeyError
      | Some ch \<Rightarrow> (case decode text x of Inl e \<Rightarrow> Inl e | Inr r \<Rightarrow> Inr ([ch] @ r)))"

section \<open>Hyperparameters (lines 7-18)\<close>

text \<open>
  The hyperparameters are module-level globals read by every function of the script. The
  model passes them as a record, so that properties can be stated for any setting;
  \<open>hyper\<close> is the setting of the source.
\<close>

record hparams =
  batch_size :: nat
  block_size :: nat
  n_embed :: nat
  n_head :: nat
  n_layer :: nat
  dropout :: rat

definition hyper :: hparams where
  "hyper = \<lparr>batch_size = 64, block_size = 30, n_embed = 40, n_head = 4, n_layer = 3,
            dropout = 2 / 10\<rparr>"

section \<open>Train and validation split (lines 39-42)\<close>

text \<open>
  \<^verbatim>\<open>n = int(0.9 * len(data))\<close> is computed in double precision: the literal \<^verbatim>\<open>0.9\<close> is the
  double \<open>8106479329266893 / 2 ^ 53\<close>, the length is converted to a double, the product is
  rounded once to 53 significant bits (round to nearest, ties to even) and \<^verbatim>\<open>int\<close>
  truncates. Doubles are modelled exactly, as natural numerators over the denominator
  \<open>2 ^ 53\<close>; lengths are far below the overflow threshold of the format.
\<close>

fun bit_length :: "nat \<Rightarrow> nat" where
  "bit_length n = (if n = 0 then 0 else Suc (bit_length (n div 2)))"

declare bit_length.simps [simp del]

text \<open>Rounding a natural number to 53 significant bits, to nearest, ties to even.\<close>

definition round53 :: "nat \<Rightarrow> nat" where
  "round53 N =
     (let e = bit_length N - 53; q = N div 2 ^ e; r = N mod 2 ^ e
      in if e = 0 then N
         else if 2 ^ (e - 1) < r \<or> (r = 2 ^ (e - 1) \<and> odd q) then (q + 1) * 2 ^ e
         else q * 2 ^ e)"

definition double_0_9 :: nat where
  "double_0_9 = 8106479329266893"

definition split_point :: "nat \<Rightarrow> nat" where
  "split_point len = round53 (double_0_9 * round53 len) div 2 ^ 53"

text \<open>
  \<^verbatim>\<open>train_data = data[:n]\<close> and \<^verbatim>\<open>val_data = data[n:]\<close>. A slice with bounds past the end
  is clipped, as \<open>take\<close> and \<open>drop\<close> are.
\<close>

definition train_data :: "'a list \<Rightarrow> 'a list" where
  "train_data data = take (split_point (length data)) data"

definition val_data :: "'a list \<Rightarrow> 'a list" where
  "val_data data = drop (split_point (length data)) data"

section \<open>Batches (lines 45-51)\<close>

text \<open>
  \<^verbatim>\<open>torch.randint(high, (size,))\<close> raises a \<^verbatim>\<open>RuntimeError\<close> unless \<open>0 < high\<close>, and
  otherwise returns \<open>size\<close> integers, each in \<open>[0, high)\<close>. The generator is a stream
  \<open>g\<close> of arbitrary naturals that the model reduces modulo \<open>high\<close>: every tuple of
  in-range offsets is the result for some stream.
\<close>

definition randint :: "(nat \<Rightarrow> nat) \<Rightarrow> int \<Rightarrow> nat \<Rightarrow> error + nat list" where
  "randint g high sz =
     (if high \<le> 0 then Inl RuntimeError
      else Inr (map (\<lambda>k. g k mod nat high) [0..<sz]))"

text \<open>\<^verbatim>\<open>data[lo:hi]\<close> for non-negative bounds.\<close>

definition slice :: "'a list \<Rightarrow> nat \<Rightarrow> nat \<Rightarrow> 'a list" where
  "slice xs lo hi = take (hi - lo) (drop lo xs)"

text \<open>
  \<^verbatim>\<open>torch.stack\<close> of one-dimensional tensors: the list must not be empty and the tensors
  must have one length.
\<close>

definition stack :: "'a list list \<Rightarrow> error + 'a list list" where
  "stack ts =
     (if ts = [] then Inl RuntimeError
      else if list_all (\<lambda>t. length t = length (hd ts)) ts then Inr ts
      else Inl RuntimeError)"

text \<open>
  \<^verbatim>\<open>get_batch\<close> reads the globals \<^verbatim>\<open>train_data\<close> and \<^verbatim>\<open>val_data\<close>; the model takes the
  encoded corpus \<open>corpus\<close> they are cut from. Moving a tensor to the device does not
  change it.
\<close>

definition get_batch ::
  "hparams \<Rightarrow> (nat \<Rightarrow> nat) \<Rightarrow> 'a list \<Rightarrow> string \<Rightarrow> error + ('a list list \<times> 'a list list)" where
  "get_batch hp g corpus split =
     (let data = (if split = ''train'' then train_data corpus else val_data corpus) in
      case randint g (int (length data) - int (block_size hp)) (batch_size hp) of
        Inl e \<Rightarrow> Inl e
      | Inr ix \<Rightarrow>
         (case stack (map (\<lambda>i. slice data i (i + block_size hp)) ix) of
            Inl e \<Rightarrow> Inl e
          | Inr x \<Rightarrow>
             (case stack (map (\<lambda>i. slice data (i + 1) (i + 1 + block_size hp)) ix) of
                Inl e \<Rightarrow> Inl e
              | Inr y \<Rightarrow> Inr (x, y))))"

section \<open>Tensor shapes and the shape rules of the tensor library\<close>

text \<open>
  Whether a tensor operation succeeds depends on the shapes of its operands only. A shape
  is the list of the dimension sizes; each library operation the model uses is described
  by the shape it returns or the exception it raises.
\<close>

type_synonym shape = "nat list"

definition ebind :: "error + 'a \<Rightarrow> ('a \<Rightarrow> error + 'b) \<Rightarrow> error + 'b" where
  "ebind m f = (case m of Inl e \<Rightarrow> Inl e | Inr x \<Rightarrow> f x)"

definition numel :: "shape \<Rightarrow> nat" where
  "numel s = prod_list s"

text \<open>
  Broadcasting aligns two shapes at their last dimension; two sizes are compatible when
  they are equal or one of them is 1. The function works on the reversed shapes.
\<close>

fun broadcast_rev :: "shape \<Rightarrow> shape \<Rightarrow> error + shape" where
  "broadcast_rev [] bs = Inr bs"
| "broadcast_rev (a # as) [] = Inr (a # as)"
| "broadcast_rev (a # as) (b # bs) =
     (if a = b \<or> b = 1 then ebind (broadcast_rev as bs) (\<lambda>r. Inr (a # r))
      else if a = 1 then ebind (broadcast_rev as bs) (\<lambda>r. Inr (b # r))
      else Inl RuntimeError)"

definition broadcast :: "shape \<Rightarrow> shape \<Rightarrow> error + shape" where
  "broadcast s t = ebind (broadcast_rev (rev s) (rev t)) (\<lambda>r. Inr (rev r))"

text \<open>\<^verbatim>\<open>t.view(shape)\<close>: the number of elements must not change.\<close>

definition view :: "shape \<Rightarrow> shape \<Rightarrow> error + shape" where
  "view s t = (if numel s = numel t then Inr t else Inl RuntimeError)"

text \<open>A dimension argument may be negative and then counts from the last dimension.\<close>

definition norm_dim :: "shape \<Rightarrow> int \<Rightarrow> error + nat" where
  "norm_dim s d =
     (let n = int (length s); j = (if d < 0 then d + n else d)
      in if 0 \<le> j \<and> j < n then Inr (nat j) else Inl IndexError)"

definition transpose_shape :: "int \<Rightarrow> int \<Rightarrow> shape \<Rightarrow> error + shape" where
  "transpose_shape d0 d1 s =
     ebind (norm_dim s d0) (\<lambda>i. ebind (norm_dim s d1) (\<lambda>j. Inr (s[i := s ! j, j := s ! i])))"

text \<open>
  \<^verbatim>\<open>a @ b\<close> for operands with at least two dimensions (the script multiplies
  four-dimensional tensors only): the inner sizes must agree and the leading dimensions are
  broadcast.
\<close>

definition matmul :: "shape \<Rightarrow> shape \<Rightarrow> error + shape" where
  "matmul s t =
     (if length s < 2 \<or> length t < 2 then Inl RuntimeError
      else if last s \<noteq> t ! (length t - 2) then Inl RuntimeError
      else ebind (broadcast (take (length s - 2) s) (take (length t - 2) t))
             (\<lambda>b. Inr (b @ [s ! (length s - 2), last t])))"

text \<open>
  \<^verbatim>\<open>t.split(split_size, dim)\<close>: the sizes of the chunks along \<open>dim\<close>. A split size of 0 is
  accepted only for a dimension of size 0; there is always at least one chunk.
\<close>

definition split_sizes :: "nat \<Rightarrow> nat \<Rightarrow> error + nat list" where
  "split_sizes dim_size split_size =
     (if split_size = 0 then (if dim_size = 0 then Inr [0] else Inl RuntimeError)
      else let num_splits = max ((dim_size + split_size - 1) div split_size) 1
           in Inr (replicate (num_splits - 1) split_size @
                   [split_size - (split_size * num_splits - dim_size)]))"

definition split_shape :: "shape \<Rightarrow> nat \<Rightarrow> int \<Rightarrow> error + shape list" where
  "split_shape s split_size d =
     ebind (norm_dim s d) (\<lambda>i.
     ebind (split_sizes (s ! i) split_size) (\<lambda>sizes.
     Inr (map (\<lambda>k. s[i := k]) sizes)))"

subsection \<open>Layers of the library\<close>

text \<open>
  \<^verbatim>\<open>nn.Linear(in_features, out_features)\<close>, \<^verbatim>\<open>nn.LayerNorm(n)\<close> and
  \<^verbatim>\<open>nn.Embedding(num_embeddings, embedding_dim)\<close> accept every size, also 0 (a parameter
  tensor with no element is created). \<^verbatim>\<open>nn.Dropout(p)\<close> raises \<^verbatim>\<open>ValueError\<close> unless
  \<open>0 \<le> p \<le> 1\<close>.
\<close>

record linear =
  in_features :: nat
  out_features :: nat

definition Linear :: "nat \<Rightarrow> nat \<Rightarrow> linear" where
  "Linear i out = \<lparr>in_features = i, out_features = out\<rparr>"

definition linear_forward :: "linear \<Rightarrow> shape \<Rightarrow> error + shape" where
  "linear_forward l s =
     (if s = [] \<or> last s \<noteq> in_features l then Inl RuntimeError
      else Inr (butlast s @ [out_features l]))"

definition Dropout :: "rat \<Rightarrow> error + rat" where
  "Dropout p = (if p < 0 \<or> 1 < p then Inl ValueError else Inr p)"

definition layer_norm_forward :: "nat \<Rightarrow> shape \<Rightarrow> error + shape" where
  "layer_norm_forward normalized_shape s =
     (if s = [] \<or> last s \<noteq> normalized_shape then Inl RuntimeError else Inr s)"

record embedding =
  num_embeddings :: nat
  embedding_dim :: nat

definition Embedding :: "nat \<Rightarrow> nat \<Rightarrow> embedding" where
  "Embedding n d = \<lparr>num_embeddings = n, embedding_dim = d\<rparr>"

text \<open>
  Looking up a tensor of ids of shape \<open>s\<close>: every id must be a row of the table,
  otherwise \<^verbatim>\<open>IndexError\<close>.
\<close>

definition embedding_forward :: "embedding \<Rightarrow> shape \<Rightarrow> int list \<Rightarrow> error + shape" where
  "embedding_forward e s ids =
     (if list_all (\<lambda>i. 0 \<le> i \<and> i < int (num_embeddings e)) ids
      then Inr (s @ [embedding_dim e]) else Inl IndexError)"

section \<open>Fused multi-head attention (lines 94-132)\<close>

text \<open>
  The constructor takes the embedding size as its argument; it creates the fused
  query/key/value projection, the output projection, two dropout layers and the
  \<open>block_size \<times> block_size\<close> lower-triangular buffer. It reads neither \<^verbatim>\<open>n_head\<close> nor
  any other global than \<^verbatim>\<open>dropout\<close> and \<^verbatim>\<open>block_size\<close>.
\<close>

record mha =
  attn :: linear
  proj :: linear
  attn_dropout :: rat
  resid_dropout :: rat
  tril :: shape

definition MultiHeadAttention :: "hparams \<Rightarrow> nat \<Rightarrow> error + mha" where
  "MultiHeadAttention hp ne =
     ebind (Dropout (dropout hp)) (\<lambda>d1.
     ebind (Dropout (dropout hp)) (\<lambda>d2.
     Inr \<lparr>attn = Linear ne (3 * ne), proj = Linear ne ne, attn_dropout = d1,
          resid_dropout = d2, tril = [block_size hp, block_size hp]\<rparr>))"

text \<open>
  \<^verbatim>\<open>t.view(B, T, n_head, C // n_head).transpose(1, 2)\<close>: the floor division raises
  \<^verbatim>\<open>ZeroDivisionError\<close> when \<^verbatim>\<open>n_head\<close> is 0, before \<^verbatim>\<open>view\<close> is called.
\<close>

definition to_heads :: "hparams \<Rightarrow> nat \<Rightarrow> nat \<Rightarrow> nat \<Rightarrow> shape \<Rightarrow> error + shape" where
  "to_heads hp B T C t =
     (if n_head hp = 0 then Inl ZeroDivisionError
      else ebind (view t [B, T, n_head hp, C div n_head hp]) (transpose_shape 1 2))"

text \<open>
  \<^verbatim>\<open>1.0 / math.sqrt(k.size(-1))\<close> raises \<^verbatim>\<open>ZeroDivisionError\<close> when the head size is 0.
\<close>

definition inv_sqrt_head_size :: "shape \<Rightarrow> error + unit" where
  "inv_sqrt_head_size k = (if k = [] then Inl IndexError
                           else if last k = 0 then Inl ZeroDivisionError else Inr ())"

text \<open>
  The forward pass on shapes. The mask is the whole buffer \<^verbatim>\<open>self.tril == 0\<close>, of shape
  \<open>(block_size, block_size)\<close>; \<^verbatim>\<open>masked_fill\<close> broadcasts the tensor and the mask to a common
  shape. Softmax and dropout keep the shape. The forward pass reads the globals
  \<^verbatim>\<open>n_embed\<close> and \<^verbatim>\<open>n_head\<close>.
\<close>

definition mha_forward :: "hparams \<Rightarrow> mha \<Rightarrow> shape \<Rightarrow> error + shape" where
  "mha_forward hp m x =
     (case x of
        [B, T, C] \<Rightarrow>
          ebind (linear_forward (attn m) x) (\<lambda>a.
          ebind (split_shape a (n_embed hp) 2) (\<lambda>chunks.
          (case chunks of
             [q, k, v] \<Rightarrow>
               ebind (to_heads hp B T C k) (\<lambda>k.
               ebind (to_heads hp B T C q) (\<lambda>q.
               ebind (to_heads hp B T C v) (\<lambda>v.
               ebind (transpose_shape (- 2) (- 1) k) (\<lambda>kT.
               ebind (matmul q kT) (\<lambda>qk.
               ebind (inv_sqrt_head_size k) (\<lambda>_.
               ebind (broadcast qk (tril m)) (\<lambda>att.
               ebind (matmul att v) (\<lambda>y.
               ebind (transpose_shape 1 2 y) (\<lambda>y.
               ebind (view y [B, T, C]) (\<lambda>y.
               linear_forward (proj m) y))))))))))
           | _ \<Rightarrow> Inl ValueError)))
      | _ \<Rightarrow> Inl ValueError)"

section \<open>Feed-forward layer and transformer block (lines 135-167)\<close>

record feed_forward =
  fc1 :: linear
  fc2 :: linear
  ff_dropout :: rat

definition FeedForward :: "hparams \<Rightarrow> nat \<Rightarrow> error + feed_forward" where
  "FeedForward hp ne =
     ebind (Dropout (dropout hp)) (\<lambda>d.
     Inr \<lparr>fc1 = Linear ne (4 * ne), fc2 = Linear (4 * ne) ne, ff_dropout = d\<rparr>)"

text \<open>\<^verbatim>\<open>self.net(x)\<close>: linear, ReLU, linear, dropout; ReLU and dropout keep the shape.\<close>

definition feed_forward_forward :: "feed_forward \<Rightarrow> shape \<Rightarrow> error + shape" where
  "feed_forward_forward f x = ebind (linear_forward (fc1 f) x) (linear_forward (fc2 f))"

record block =
  sa :: mha
  ffwd :: feed_forward
  ln1 :: nat
  ln2 :: nat

definition Block :: "hparams \<Rightarrow> nat \<Rightarrow> nat \<Rightarrow> error + block" where
  "Block hp ne nh =
     ebind (MultiHeadAttention hp ne) (\<lambda>a.
     ebind (FeedForward hp ne) (\<lambda>f.
     Inr \<lparr>sa = a, ffwd = f, ln1 = ne, ln2 = ne\<rparr>))"

text \<open>
  \<^verbatim>\<open>x = x + self.sa(self.ln1(x))\<close>, then \<^verbatim>\<open>x = x + self.ffwd(self.ln2(x))\<close>; an addition
  broadcasts its operands.
\<close>

definition block_forward :: "hparams \<Rightarrow> block \<Rightarrow> shape \<Rightarrow> error + shape" where
  "block_forward hp b x =
     ebind (layer_norm_forward (ln1 b) x) (\<lambda>h.
     ebind (mha_forward hp (sa b) h) (\<lambda>a.
     ebind (broadcast x a) (\<lambda>x.
     ebind (layer_norm_forward (ln2 b) x) (\<lambda>h.
     ebind (feed_forward_forward (ffwd b) h) (\<lambda>f.
     broadcast x f)))))"

section \<open>The language model (lines 170-208)\<close>

record model =
  token_embedding_table :: embedding
  position_embedding_table :: embedding
  blocks :: "block list"
  ln_f :: nat
  lm_head :: linear

text \<open>\<^verbatim>\<open>[Block(n_embed, n_head=n_head) for _ in range(n_layer)]\<close>\<close>

fun Blocks :: "hparams \<Rightarrow> nat \<Rightarrow> error + block list" where
  "Blocks hp 0 = Inr []"
| "Blocks hp (Suc n) =
     ebind (Block hp (n_embed hp) (n_head hp)) (\<lambda>b.
     ebind (Blocks hp n) (\<lambda>bs. Inr (b # bs)))"

text \<open>
  The constructor reads the global \<^verbatim>\<open>vocab_size\<close>, here the argument \<open>vs\<close>. No
  statement of it inspects \<open>vs\<close>, \<^verbatim>\<open>n_embed\<close> or \<^verbatim>\<open>n_head\<close>.
\<close>

definition BigramLanguageModel :: "hparams \<Rightarrow> nat \<Rightarrow> error + model" where
  "BigramLanguageModel hp vs =
     ebind (Blocks hp (n_layer hp)) (\<lambda>bs.
     Inr \<lparr>token_embedding_table = Embedding vs (n_embed hp),
          position_embedding_table = Embedding (block_size hp) (n_embed hp),
          blocks = bs, ln_f = n_embed hp, lm_head = Linear (n_embed hp) vs\<rparr>)"

text \<open>\<^verbatim>\<open>nn.Sequential\<close> applies the blocks in order.\<close>

fun blocks_forward :: "hparams \<Rightarrow> block list \<Rightarrow> shape \<Rightarrow> error + shape" where
  "blocks_forward hp [] x = Inr x"
| "blocks_forward hp (b # bs) x = ebind (block_forward hp b x) (blocks_forward hp bs)"

text \<open>
  A two-dimensional tensor of token ids is the list of its rows, all of one length
  (\<open>B\<close> rows of length \<open>T\<close>): \<^verbatim>\<open>B, T = idx.shape\<close>.
\<close>

definition ids_shape :: "int list list \<Rightarrow> shape" where
  "ids_shape idx = [length idx, (if idx = [] then 0 else length (hd idx))]"

text \<open>
  The shape of the logits, lines 181-188: token embedding, position embedding of
  \<^verbatim>\<open>torch.arange(T)\<close>, their sum, the blocks, the final layer norm and the output
  projection.
\<close>

definition logits_shape :: "hparams \<Rightarrow> model \<Rightarrow> int list list \<Rightarrow> error + shape" where
  "logits_shape hp mdl idx =
     (let T = ids_shape idx ! 1 in
      ebind (embedding_forward (token_embedding_table mdl) (ids_shape idx) (concat idx)) (\<lambda>tok_embed.
      ebind (embedding_forward (position_embedding_table mdl) [T] (map int [0..<T])) (\<lambda>pos_embed.
      ebind (broadcast tok_embed pos_embed) (\<lambda>x.
      ebind (blocks_forward hp (blocks mdl) x) (\<lambda>x.
      ebind (layer_norm_forward (ln_f mdl) x) (\<lambda>x.
      linear_forward (lm_head mdl) x))))))"

text \<open>
  A tensor of numbers is its shape together with its elements in row-major order;
  \<^verbatim>\<open>view\<close> keeps the elements. The numbers are modelled as reals.
\<close>

record tensor =
  dims :: shape
  elems :: "real list"

definition tensor_view :: "tensor \<Rightarrow> shape \<Rightarrow> error + tensor" where
  "tensor_view t s = ebind (view (dims t) s) (\<lambda>s'. Inr (t\<lparr>dims := s'\<rparr>))"

text \<open>Row \<open>n\<close> of a two-dimensional tensor.\<close>

definition row :: "tensor \<Rightarrow> nat \<Rightarrow> real list" where
  "row t n = take (dims t ! 1) (drop (n * (dims t ! 1)) (elems t))"

definition softmax :: "real list \<Rightarrow> real list" where
  "softmax zs = map (\<lambda>z. exp z / sum_list (map exp zs)) zs"

text \<open>
  \<^verbatim>\<open>F.cross_entropy(logits, targets)\<close> with its defaults, for logits of shape \<open>(N, C)\<close> and
  \<open>N\<close> class indices: a target equal to \<^verbatim>\<open>ignore_index = -100\<close> is skipped, any other target
  outside \<open>[0, C)\<close> raises \<^verbatim>\<open>IndexError\<close>, and the result is the mean, over the targets that
  are not skipped, of the negative log of the softmax probability of the target class.
\<close>

definition cross_entropy :: "tensor \<Rightarrow> int list \<Rightarrow> error + real" where
  "cross_entropy logits targets =
     (case dims logits of
        [N, C] \<Rightarrow>
          if length targets \<noteq> N then Inl ValueError
          else if \<not> list_all (\<lambda>t. t = - 100 \<or> (0 \<le> t \<and> t < int C)) targets then Inl IndexError
          else let kept = filter (\<lambda>n. targets ! n \<noteq> - 100) [0..<N]
               in Inr (sum_list (map (\<lambda>n. - ln (softmax (row logits n) ! nat (targets ! n))) kept)
                       / real (length kept))
      | _ \<Rightarrow> Inl RuntimeError)"

text \<open>
  \<^verbatim>\<open>forward(idx, targets=None)\<close>. The numbers the network computes are the parameter
  \<open>net\<close>: \<open>net idx k\<close> is element \<open>k\<close> of the logits for the input \<open>idx\<close>. With targets, the
  logits are viewed as \<open>(B * T, C)\<close>, the targets as \<open>(B * T)\<close>, and the loss is their
  cross entropy; without, the loss is \<^verbatim>\<open>None\<close>.
\<close>

definition forward ::
  "hparams \<Rightarrow> model \<Rightarrow> (int list list \<Rightarrow> nat \<Rightarrow> real) \<Rightarrow> int list list \<Rightarrow> int list list option
     \<Rightarrow> error + (tensor \<times> real option)" where
  "forward hp mdl net idx targets =
     ebind (logits_shape hp mdl idx) (\<lambda>s.
     let logits = \<lparr>dims = s, elems = map (net idx) [0..<numel s]\<rparr> in
     case targets of
       None \<Rightarrow> Inr (logits, None)
     | Some tg \<Rightarrow>
        (case dims logits of
           [B, T, C] \<Rightarrow>
             ebind (tensor_view logits [B * T, C]) (\<lambda>logits.
             ebind (view [numel (ids_shape tg)] [B * T]) (\<lambda>_.
             ebind (cross_entropy logits (concat tg)) (\<lambda>loss.
             Inr (logits, Some loss))))
         | _ \<Rightarrow> Inl ValueError))"






section \<open>The numbers computed by the attention layer (lines 116-132)\<close>

subsection \<open>Floating-point numbers\<close>

text \<open>
  The tensors hold floating-point numbers: finite values, the two infinities and NaN. A
  format is given by its rounding function \<open>rnd\<close> (the exact result of an operation is
  rounded to a value of the format), its largest finite value \<open>fmax\<close> (a rounded result
  beyond it overflows to an infinity) and the exponential \<open>fexp\<close> the library computes on
  finite arguments. The special values follow IEEE 754: NaN propagates,
  \<open>\<infinity> - \<infinity>\<close>, \<open>0 \<times> \<infinity>\<close>, \<open>\<infinity> / \<infinity>\<close> and \<open>0 / 0\<close> are NaN. The two zeros are
  one value, and a division by zero takes the sign of the numerator.
\<close>

datatype fnum = Fin real | PInf | NInf | NaN

record fformat =
  rnd :: "real \<Rightarrow> real"
  fmax :: real
  fexp :: "real \<Rightarrow> real"

definition fround :: "fformat \<Rightarrow> real \<Rightarrow> fnum" where
  "fround F r =
     (let r' = rnd F r
      in if fmax F < r' then PInf else if r' < - fmax F then NInf else Fin r')"

fun is_fin :: "fnum \<Rightarrow> bool" where
  "is_fin (Fin r) = True"
| "is_fin x = False"

fun fneg :: "fnum \<Rightarrow> fnum" where
  "fneg (Fin r) = Fin (- r)"
| "fneg PInf = NInf"
| "fneg NInf = PInf"
| "fneg NaN = NaN"

fun fadd :: "fformat \<Rightarrow> fnum \<Rightarrow> fnum \<Rightarrow> fnum" where
  "fadd F NaN y = NaN"
| "fadd F x NaN = NaN"
| "fadd F PInf NInf = NaN"
| "fadd F NInf PInf = NaN"
| "fadd F PInf y = PInf"
| "fadd F x PInf = PInf"
| "fadd F NInf y = NInf"
| "fadd F x NInf = NInf"
| "fadd F (Fin a) (Fin b) = fround F (a + b)"

definition fsub :: "fformat \<Rightarrow> fnum \<Rightarrow> fnum \<Rightarrow> fnum" where
  "fsub F x y = fadd F x (fneg y)"

text \<open>An infinity, positive when \<open>p\<close> holds, times a number.\<close>

fun inf_times :: "bool \<Rightarrow> fnum \<Rightarrow> fnum" where
  "inf_times p NaN = NaN"
| "inf_times p PInf = (if p then PInf else NInf)"
| "inf_times p NInf = (if p then NInf else PInf)"
| "inf_times p (Fin b) = (if b = 0 then NaN else if (0 < b) = p then PInf else NInf)"

fun fmul :: "fformat \<Rightarrow> fnum \<Rightarrow> fnum \<Rightarrow> fnum" where
  "fmul F NaN y = NaN"
| "fmul F x NaN = NaN"
| "fmul F PInf y = inf_times True y"
| "fmul F NInf y = inf_times False y"
| "fmul F x PInf = inf_times True x"
| "fmul F x NInf = inf_times False x"
| "fmul F (Fin a) (Fin b) = fround F (a * b)"

fun fdiv :: "fformat \<Rightarrow> fnum \<Rightarrow> fnum \<Rightarrow> fnum" where
  "fdiv F NaN y = NaN"
| "fdiv F x NaN = NaN"
| "fdiv F PInf (Fin b) = (if 0 \<le> b then PInf else NInf)"
| "fdiv F NInf (Fin b) = (if 0 \<le> b then NInf else PInf)"
| "fdiv F PInf y = NaN"
| "fdiv F NInf y = NaN"
| "fdiv F (Fin a) (Fin b) =
     (if b = 0 then (if a = 0 then NaN else if 0 < a then PInf else NInf)
      else fround F (a / b))"
| "fdiv F (Fin a) y = Fin 0"

fun fexp_num :: "fformat \<Rightarrow> fnum \<Rightarrow> fnum" where
  "fexp_num F NaN = NaN"
| "fexp_num F PInf = PInf"
| "fexp_num F NInf = Fin 0"
| "fexp_num F (Fin r) = fround F (fexp F r)"

text \<open>The maximum of two numbers; a NaN operand gives NaN.\<close>

fun fmaximum :: "fnum \<Rightarrow> fnum \<Rightarrow> fnum" where
  "fmaximum NaN y = NaN"
| "fmaximum x NaN = NaN"
| "fmaximum PInf y = PInf"
| "fmaximum x PInf = PInf"
| "fmaximum NInf y = y"
| "fmaximum x NInf = x"
| "fmaximum (Fin a) (Fin b) = Fin (max a b)"

text \<open>A sum accumulates its terms from the first to the last.\<close>

definition fsum :: "fformat \<Rightarrow> fnum list \<Rightarrow> fnum" where
  "fsum F xs = foldl (fadd F) (Fin 0) xs"

text \<open>
  A format with the range of IEEE single precision and no rounding below it. It agrees
  with single precision on every computation whose exact results are all single-precision
  numbers.
\<close>

definition single_range :: fformat where
  "single_range = \<lparr>rnd = (\<lambda>r. r), fmax = 340282346638528859811704183484516925440, fexp = exp\<rparr>"

subsection \<open>The forward pass on numbers\<close>

text \<open>
  The values of the forward pass, in evaluation mode, where \<^verbatim>\<open>nn.Dropout\<close> is the
  identity. The parameters of the two linear layers are matrices with one row per output
  feature, and bias vectors. A tensor of floating-point numbers is its shape with its
  elements in row-major order.
\<close>

record ftensor =
  fdims :: shape
  felems :: "fnum list"

record attention_params =
  attn_weight :: "fnum list list"
  attn_bias :: "fnum list"
  proj_weight :: "fnum list list"
  proj_bias :: "fnum list"

definition dot :: "fformat \<Rightarrow> fnum list \<Rightarrow> fnum list \<Rightarrow> fnum" where
  "dot F u v = fsum F (map2 (fmul F) u v)"

text \<open>\<^verbatim>\<open>nn.Linear\<close> on one vector: output \<open>n\<close> is \<open>x \<cdot> W[n] + b[n]\<close>.\<close>

definition linear_values ::
  "fformat \<Rightarrow> linear \<Rightarrow> fnum list list \<Rightarrow> fnum list \<Rightarrow> fnum list \<Rightarrow> fnum list" where
  "linear_values F l W b x = map (\<lambda>n. fadd F (dot F x (W ! n)) (b ! n)) [0..<out_features l]"

text \<open>\<^verbatim>\<open>x[b, t, :]\<close> for a three-dimensional tensor.\<close>

definition fpos :: "ftensor \<Rightarrow> nat \<Rightarrow> nat \<Rightarrow> fnum list" where
  "fpos x b t =
     (let T = fdims x ! 1; C = fdims x ! 2 in take C (drop ((b * T + t) * C) (felems x)))"

text \<open>
  \<^verbatim>\<open>q, k, v = self.attn(x).split(n_embed, dim=2)\<close> at one position: the three chunks of
  \<^verbatim>\<open>n_embed\<close> columns of the fused projection.
\<close>

definition query_projection :: "fformat \<Rightarrow> hparams \<Rightarrow> mha \<Rightarrow> attention_params \<Rightarrow> fnum list \<Rightarrow> fnum list" where
  "query_projection F hp m w x =
     take (n_embed hp) (linear_values F (attn m) (attn_weight w) (attn_bias w) x)"

definition key_projection :: "fformat \<Rightarrow> hparams \<Rightarrow> mha \<Rightarrow> attention_params \<Rightarrow> fnum list \<Rightarrow> fnum list" where
  "key_projection F hp m w x =
     take (n_embed hp) (drop (n_embed hp)
       (linear_values F (attn m) (attn_weight w) (attn_bias w) x))"

definition value_projection :: "fformat \<Rightarrow> hparams \<Rightarrow> mha \<Rightarrow> attention_params \<Rightarrow> fnum list \<Rightarrow> fnum list" where
  "value_projection F hp m w x =
     take (n_embed hp) (drop (2 * n_embed hp)
       (linear_values F (attn m) (attn_weight w) (attn_bias w) x))"

text \<open>
  One head of a \<^verbatim>\<open>view(B, T, n_head, hs).transpose(1, 2)\<close>: columns
  \<open>h * hs, \<dots>, h * hs + hs - 1\<close> of a row.
\<close>

definition head_of :: "nat \<Rightarrow> nat \<Rightarrow> fnum list \<Rightarrow> fnum list" where
  "head_of hs h r = take hs (drop (h * hs) r)"

text \<open>\<^verbatim>\<open>q @ k.transpose(-2, -1)\<close> for one head: entry \<open>(i, j)\<close> is \<open>q[i] \<cdot> k[j]\<close>.\<close>

definition matmul_transposed :: "fformat \<Rightarrow> fnum list list \<Rightarrow> fnum list list \<Rightarrow> fnum list list" where
  "matmul_transposed F q k = map (\<lambda>qi. map (\<lambda>kj. dot F qi kj) k) q"

text \<open>
  Multiplication by the scalar \<^verbatim>\<open>1.0 / math.sqrt(k.size(-1))\<close>, rounded to the format of
  the tensor.
\<close>

definition scale :: "fformat \<Rightarrow> nat \<Rightarrow> fnum list list \<Rightarrow> fnum list list" where
  "scale F hs M = map (map (\<lambda>a. fmul F a (fround F (1 / sqrt (real hs))))) M"

text \<open>
  \<^verbatim>\<open>torch.tril(torch.ones(block_size, block_size))\<close>: entry \<open>(i, j)\<close> is 1 when \<open>j \<le> i\<close>.
  When the buffer is broadcast against the scores, a dimension of size 1 is read at
  index 0.
\<close>

definition tril_entry :: "nat \<Rightarrow> nat \<Rightarrow> real" where
  "tril_entry i j = (if j \<le> i then 1 else 0)"

definition mask_entry :: "nat \<Rightarrow> nat \<Rightarrow> nat \<Rightarrow> real" where
  "mask_entry bs i j = tril_entry (if bs = 1 then 0 else i) (if bs = 1 then 0 else j)"

text \<open>
  \<^verbatim>\<open>att.masked_fill(self.tril == 0, float('-inf'))\<close>: a masked entry is replaced
  whatever it holds.
\<close>

definition masked_fill :: "nat \<Rightarrow> fnum list list \<Rightarrow> fnum list list" where
  "masked_fill bs M =
     map (\<lambda>i. map (\<lambda>j. if mask_entry bs i j = 0 then NInf else M ! i ! j)
                [0..<length (M ! i)])
         [0..<length M]"

text \<open>
  \<^verbatim>\<open>F.softmax(att, dim=-1)\<close> on one row, as the library computes it: the maximum of the
  row is subtracted, the exponentials are summed and each is divided by the sum.
\<close>

definition softmax_row :: "fformat \<Rightarrow> fnum list \<Rightarrow> fnum list" where
  "softmax_row F xs =
     (let mx = foldl fmaximum NInf xs;
          es = map (\<lambda>x. fexp_num F (fsub F x mx)) xs;
          s = fsum F es
      in map (\<lambda>e. fdiv F e s) es)"

text \<open>\<^verbatim>\<open>att @ v\<close> for one head: entry \<open>(i, d)\<close> is the sum over \<open>j\<close> of \<open>att[i][j] * v[j][d]\<close>.\<close>

definition matmul_values :: "fformat \<Rightarrow> nat \<Rightarrow> fnum list list \<Rightarrow> fnum list list \<Rightarrow> fnum list list" where
  "matmul_values F hs att v =
     map (\<lambda>p. map (\<lambda>d. fsum F (map (\<lambda>j. fmul F (p ! j) (v ! j ! d)) [0..<length v])) [0..<hs]) att"

definition attention_head ::
  "fformat \<Rightarrow> nat \<Rightarrow> nat \<Rightarrow> fnum list list \<Rightarrow> fnum list list \<Rightarrow> fnum list list \<Rightarrow> fnum list list" where
  "attention_head F bs hs q k v =
     (let att = scale F hs (matmul_transposed F q k);
          att = masked_fill bs att;
          att = map (softmax_row F) att
      in matmul_values F hs att v)"

text \<open>
  The layer on one batch element \<open>xb\<close>, the list of its \<open>T\<close> input vectors; \<open>C\<close> is the size
  of the input's last dimension. Each chunk of the fused projection is cut into heads, and
  the heads' outputs at one time step are laid side by side again before the output
  projection.
\<close>

definition attend ::
  "fformat \<Rightarrow> hparams \<Rightarrow> mha \<Rightarrow> attention_params \<Rightarrow> nat \<Rightarrow> fnum list list \<Rightarrow> fnum list list" where
  "attend F hp m w C xb =
     (let q = map (query_projection F hp m w) xb;
          k = map (key_projection F hp m w) xb;
          v = map (value_projection F hp m w) xb;
          hs = C div n_head hp;
          heads = map (\<lambda>h. attention_head F (block_size hp) hs
                              (map (head_of hs h) q) (map (head_of hs h) k) (map (head_of hs h) v))
                      [0..<n_head hp];
          y = map (\<lambda>t. concat (map (\<lambda>yh. yh ! t) heads)) [0..<length xb]
      in map (linear_values F (proj m) (proj_weight w) (proj_bias w)) y)"

text \<open>
  The forward pass on a tensor: the shape rules decide whether it returns, and each batch
  element is computed on its own.
\<close>

definition mha_values ::
  "fformat \<Rightarrow> hparams \<Rightarrow> mha \<Rightarrow> attention_params \<Rightarrow> ftensor \<Rightarrow> error + ftensor" where
  "mha_values F hp m w x =
     ebind (mha_forward hp m (fdims x)) (\<lambda>s.
     Inr \<lparr>fdims = s,
          felems = concat (map (\<lambda>b. concat (attend F hp m w (fdims x ! 2)
                                                (map (fpos x b) [0..<fdims x ! 1])))
                               [0..<fdims x ! 0])\<rparr>)"

section \<open>Codec lemmas\<close>

lemma chars_distinct: "distinct (chars text)"
  by (simp add: chars_def)

lemma chars_set: "set (chars text) = set text"
  by (simp add: chars_def)

lemma stoi_fold_notin:
  "ch \<notin> set xs \<Longrightarrow>
   foldl (\<lambda>d (i, c). d(c \<mapsto> i)) m (enumerate_from n xs) ch = m ch"
  by (induction xs arbitrary: m n) auto

lemma stoi_fold_nth:
  "distinct xs \<Longrightarrow> k < length xs \<Longrightarrow>
   foldl (\<lambda>d (i, c). d(c \<mapsto> i)) m (enumerate_from n xs) (xs ! k) = Some (n + int k)"
proof (induction xs arbitrary: m n k)
  case Nil
  then show ?case by simp
next
  case (Cons x xs)
  show ?case
  proof (cases k)
    case 0
    from Cons.prems have "x \<notin> set xs" by simp
    from stoi_fold_notin [OF this, of "m(x \<mapsto> n)" "n + 1"] 0
    show ?thesis by (simp add: fun_upd_same del: fun_upd_apply)
  next
    case (Suc j)
    with Cons.prems have "j < length xs" "distinct xs" by simp_all
    from Cons.IH [OF this(2) this(1), of "m(x \<mapsto> n)" "n + 1"] Suc
    show ?thesis by (simp del: fun_upd_apply)
  qed
qed

lemma itos_fold:
  "foldl (\<lambda>d (i, c). d(i \<mapsto> c)) m (enumerate_from n xs) i =
     (if n \<le> i \<and> i < n + int (length xs) then Some (xs ! nat (i - n)) else m i)"
proof (induction xs arbitrary: m n)
  case Nil
  then show ?case by auto
next
  case (Cons x xs)
  have "foldl (\<lambda>d (i, c). d(i \<mapsto> c)) m (enumerate_from n (x # xs)) i =
        foldl (\<lambda>d (i, c). d(i \<mapsto> c)) (m(n \<mapsto> x)) (enumerate_from (n + 1) xs) i"
    by (simp del: fun_upd_apply)
  also have "\<dots> = (if n + 1 \<le> i \<and> i < n + 1 + int (length xs)
                    then Some (xs ! nat (i - (n + 1))) else (m(n \<mapsto> x)) i)"
    by (rule Cons.IH)
  also have "\<dots> = (if n \<le> i \<and> i < n + int (length (x # xs))
                    then Some ((x # xs) ! nat (i - n)) else m i)"
  proof (cases "i = n")
    case True
    then show ?thesis by simp
  next
    case False
    then have "n + 1 \<le> i \<Longrightarrow> nat (i - n) = Suc (nat (i - (n + 1)))" by linarith
    with False show ?thesis by auto
  qed
  finally show ?case .
qed

lemma stoi_nth: "k < vocab_size text \<Longrightarrow> stoi text (chars text ! k) = Some (int k)"
  using stoi_fold_nth [OF chars_distinct, of k "text" Map.empty 0]
  by (simp add: stoi_def vocab_size_def)

lemma stoi_none: "ch \<notin> set text \<Longrightarrow> stoi text ch = None"
  by (simp add: stoi_def stoi_fold_notin chars_set)

lemma itos_eq:
  "itos text i =
     (if 0 \<le> i \<and> i < int (vocab_size text) then Some (chars text ! nat i) else None)"
  by (simp add: itos_def itos_fold vocab_size_def)

lemma stoi_in:
  assumes "ch \<in> set text"
  shows "\<exists>k < vocab_size text. chars text ! k = ch \<and> stoi text ch = Some (int k)"
proof -
  from assms have "ch \<in> set (chars text)" by (simp add: chars_set)
  then obtain k where k: "k < length (chars text)" "chars text ! k = ch"
    by (auto simp: in_set_conv_nth)
  then have "stoi text ch = Some (int k)"
    using stoi_nth [of k "text"] by (simp add: vocab_size_def)
  with k show ?thesis by (auto simp: vocab_size_def)
qed

section \<open>Codec round trips\<close>

text \<open>
  Claim C9. For every string \<open>s\<close> whose characters all occur in the corpus (so are in
  the vocabulary), encoding succeeds and decoding the ids gives \<open>s\<close> back:
  \<^verbatim>\<open>decode(encode(s)) == s\<close>.
\<close>

theorem decode_encode_roundtrip:
  "set s \<subseteq> set text \<Longrightarrow>
   (case encode text s of Inl e \<Rightarrow> Inl e | Inr ids \<Rightarrow> decode text ids) = Inr s"
proof (induction s)
  case Nil
  then show ?case by simp
next
  case (Cons ch s)
  from Cons.prems obtain k where k: "k < vocab_size text" "chars text ! k = ch"
    "stoi text ch = Some (int k)"
    using stoi_in [of ch "text"] by auto
  from Cons obtain ids where ids: "encode text s = Inr ids" "decode text ids = Inr s"
    by (auto split: sum.splits)
  from k ids show ?case by (simp add: itos_eq)
qed

theorem decode_encode_roundtrip_witness:
  "set [97, 98, 98, 97] \<subseteq> set [99, 97, 98 :: nat] \<and>
   (case encode [99, 97, 98 :: nat] [97, 98, 98, 97] of
      Inl e \<Rightarrow> Inl e | Inr ids \<Rightarrow> decode [99, 97, 98 :: nat] ids) = Inr [97, 98, 98, 97 :: nat]"
  using decode_encode_roundtrip [of "[97, 98, 98, 97 :: nat]" "[99, 97, 98 :: nat]"] by simp

text \<open>
  Claim C10. For every list of ids that all lie in \<open>[0, vocab_size)\<close>, decoding succeeds
  and encoding the decoded string gives the ids back: \<^verbatim>\<open>encode(decode(ids)) == ids\<close>.
\<close>

theorem encode_decode_roundtrip:
  "\<forall>i \<in> set ids. 0 \<le> i \<and> i < int (vocab_size text) \<Longrightarrow>
   (case decode text ids of Inl e \<Rightarrow> Inl e | Inr s \<Rightarrow> encode text s) = Inr ids"
proof (induction ids)
  case Nil
  then show ?case by simp
next
  case (Cons i ids)
  then have i: "0 \<le> i" "i < int (vocab_size text)" by simp_all
  then have "stoi text (chars text ! nat i) = Some i"
    using stoi_nth [of "nat i" "text"] by simp
  moreover from Cons obtain s where "decode text ids = Inr s" "encode text s = Inr ids"
    by (auto split: sum.splits)
  ultimately show ?case using i by (simp add: itos_eq)
qed

theorem encode_decode_roundtrip_witness:
  "vocab_size [99, 97, 98 :: nat] = 3 \<and>
   (case decode [99, 97, 98 :: nat] [2, 0, 1] of
      Inl e \<Rightarrow> Inl e | Inr s \<Rightarrow> encode [99, 97, 98 :: nat] s) = Inr [2, 0, 1]"
proof -
  have v: "vocab_size [99, 97, 98 :: nat] = 3"
    by (simp add: vocab_size_def chars_def)
  then have h: "\<forall>i \<in> set [2, 0, 1]. 0 \<le> i \<and> i < int (vocab_size [99, 97, 98 :: nat])"
    by simp
  from encode_decode_roundtrip [OF h] v show ?thesis by blast
qed

section \<open>The split point in double precision\<close>

lemma bit_length_bounds:
  "0 < n \<Longrightarrow> 2 ^ (bit_length n - 1) \<le> n \<and> n < 2 ^ bit_length n"
proof (induction n rule: bit_length.induct)
  case (1 n)
  show ?case
  proof (cases "n div 2 = 0")
    case True
    with 1(2) have "n = 1" by (cases n) (simp_all add: div_eq_0_iff)
    then show ?thesis by (simp add: bit_length.simps)
  next
    case False
    define b where "b = bit_length (n div 2)"
    from False 1 have IH: "2 ^ (b - 1) \<le> n div 2" "n div 2 < 2 ^ b"
      by (simp_all add: b_def)
    from False have b: "0 < b"
      by (simp add: b_def bit_length.simps [of "n div 2"])
    from "1.prems" have bl: "bit_length n = Suc b"
      by (simp add: b_def bit_length.simps [of n])
    from b have hb: "(2::nat) ^ b = 2 * 2 ^ (b - 1)"
      by (cases b) simp_all
    have d: "2 * (n div 2) \<le> n" "n < 2 * (n div 2) + 2"
      by linarith+
    have "(2::nat) ^ b \<le> n" using IH(1) hb d(1) by linarith
    moreover have "n < 2 * 2 ^ b" using IH(2) d(2) by linarith
    ultimately show ?thesis unfolding bl by simp
  qed
qed

lemma bit_length_le: "n < 2 ^ k \<Longrightarrow> bit_length n \<le> k"
proof (cases "n = 0")
  case True
  then show ?thesis by (simp add: bit_length.simps)
next
  case False
  assume "n < 2 ^ k"
  moreover from False have "2 ^ (bit_length n - 1) \<le> n"
    using bit_length_bounds [of n] by simp
  ultimately have lt: "(2::nat) ^ (bit_length n - 1) < 2 ^ k" by linarith
  have "(1::nat) < 2" by simp
  from power_less_imp_less_exp [OF this lt] have "bit_length n - 1 < k" .
  then show ?thesis by simp
qed

lemma round53_small: "N < 2 ^ 53 \<Longrightarrow> round53 N = N"
  using bit_length_le [of N 53] by (simp add: round53_def Let_def)

lemma round53_bounds:
  assumes "2 ^ 53 \<le> N"
  defines "e \<equiv> bit_length N - 53"
  shows "0 < e" and "(N div 2 ^ e) * 2 ^ e \<le> round53 N"
    and "2 * round53 N \<le> 2 * N + 2 ^ e" and "2 ^ (52 + e) \<le> N"
proof -
  from assms(1) have pos: "0 < N" by (simp add: order.strict_trans2 [of 0 "2 ^ 53" N])
  from bit_length_bounds [OF pos] have bb: "2 ^ (bit_length N - 1) \<le> N" "N < 2 ^ bit_length N"
    by simp_all
  from assms(1) bb(2) have lt: "(2::nat) ^ 53 < 2 ^ bit_length N" by (rule le_less_trans)
  have "(1::nat) < 2" by simp
  from power_less_imp_less_exp [OF this lt] have gt: "53 < bit_length N" .
  then show e: "0 < e" by (simp add: e_def)
  from gt have "bit_length N - 1 = 52 + e" by (simp add: e_def)
  with bb(1) show "2 ^ (52 + e) \<le> N" by simp
  define q where "q = N div 2 ^ e"
  define r where "r = N mod 2 ^ e"
  have N: "N = q * 2 ^ e + r"
    using div_mult_mod_eq [of N "2 ^ e"] by (simp only: q_def r_def)
  from e have half: "(2::nat) ^ e = 2 * 2 ^ (e - 1)" by (cases e) simp_all
  have rd: "round53 N =
    (if 2 ^ (e - 1) < r \<or> (r = 2 ^ (e - 1) \<and> odd q) then (q + 1) * 2 ^ e else q * 2 ^ e)"
    using e by (simp add: round53_def Let_def e_def q_def r_def)
  show "(N div 2 ^ e) * 2 ^ e \<le> round53 N"
    unfolding rd q_def [symmetric] by simp
  show "2 * round53 N \<le> 2 * N + 2 ^ e"
  proof (cases "2 ^ (e - 1) < r \<or> (r = 2 ^ (e - 1) \<and> odd q)")
    case True
    then have "2 ^ e \<le> 2 * r" using half by auto
    moreover from True have "round53 N = q * 2 ^ e + 2 ^ e" by (simp add: rd)
    ultimately show ?thesis using N by simp
  next
    case False
    then have "round53 N = q * 2 ^ e" by (simp add: rd)
    then show ?thesis using N by simp
  qed
qed

lemma split_point_eq:
  assumes "len < 2 ^ 49"
  shows "split_point len = 9 * len div 10"
proof (cases "double_0_9 * len < 2 ^ 53")
  case True
  then have "len < 2" by (simp add: double_0_9_def)
  then have "len = 0 \<or> len = 1" by auto
  then show ?thesis
    by (auto simp: split_point_def round53_small double_0_9_def)
next
  case False
  define P :: nat where "P = 2 ^ 53"
  define N where "N = double_0_9 * len"
  define t where "t = 9 * len div 10"
  define e where "e = bit_length N - 53"
  have M: "10 * double_0_9 = 9 * P + 2" by (simp add: P_def double_0_9_def)
  have Mlt: "double_0_9 < P" by (simp add: P_def double_0_9_def)
  from assms have lenP: "24 * len < 2 * P" by (simp add: P_def)
  from assms have r: "round53 len = len"
    by (intro round53_small) (simp add: order.strict_trans [of len "2 ^ 49" "2 ^ 53"])
  from False have big: "2 ^ 53 \<le> N" by (simp add: N_def)
  note rb = round53_bounds [OF big, folded e_def]
  have N10: "10 * N = 9 * len * P + 2 * len"
  proof -
    have "10 * N = (10 * double_0_9) * len" by (simp add: N_def)
    also have "\<dots> = (9 * P + 2) * len" by (simp only: M)
    also have "\<dots> = 9 * len * P + 2 * len" by (simp add: algebra_simps)
    finally show ?thesis .
  qed
  have t: "10 * t \<le> 9 * len" "9 * len < 10 * t + 10" by (simp_all add: t_def)
  have NltP: "N < P * len" 
  proof -
    from False have "0 < len" by (cases len) (simp_all add: double_0_9_def)
    with Mlt show ?thesis by (simp add: N_def)
  qed
  have "N < 2 ^ 53 * 2 ^ 49"
  proof -
    have "P * len < P * 2 ^ 49" using assms by (simp add: P_def)
    with NltP show ?thesis by (simp add: P_def)
  qed
  then have "N < 2 ^ 102" by simp
  then have "bit_length N \<le> 102" by (rule bit_length_le)
  then have e53: "e \<le> 53" by (simp add: e_def)
  have lower: "t * P \<le> round53 N"
  proof -
    have "10 * (t * P) \<le> 10 * N"
    proof -
      from t(1) have le9: "10 * t * P \<le> 9 * len * P" by (rule mult_le_mono1)
      have "10 * (t * P) = 10 * t * P" by simp
      also note le9
      also have "9 * len * P \<le> 10 * N" by (simp only: N10 le_add1)
      finally show ?thesis .
    qed
    then have le: "t * P \<le> N" by simp
    from e53 have Pe: "P = 2 ^ (53 - e) * 2 ^ e"
      by (simp add: P_def power_add [symmetric])
    have "(t * 2 ^ (53 - e)) * 2 ^ e \<le> N" using le Pe by (simp add: mult.assoc)
    then have "t * 2 ^ (53 - e) \<le> N div 2 ^ e"
      by (simp add: less_eq_div_iff_mult_less_eq)
    then have A: "(t * 2 ^ (53 - e)) * 2 ^ e \<le> (N div 2 ^ e) * 2 ^ e"
      by (rule mult_le_mono1)
    have "t * P = (t * 2 ^ (53 - e)) * 2 ^ e"
      by (subst Pe) (simp only: mult.assoc)
    also note A
    also note rb(2)
    finally show ?thesis .
  qed
  have upper: "round53 N < (t + 1) * P"
  proof -
    from rb(4) NltP have "2 ^ (52 + e) < P * len" by simp
    then have "2 ^ 52 * 2 ^ e < 2 ^ 52 * (2 * len)"
      by (simp add: P_def power_add)
    then have e2: "2 ^ e < 2 * len" by simp
    have "10 * (2 * round53 N) \<le> 10 * (2 * N + 2 ^ e)"
      using rb(3) by simp
    also have "\<dots> = 18 * len * P + 4 * len + 10 * 2 ^ e"
      using N10 by simp
    also have "\<dots> < 18 * len * P + 24 * len" using e2 by simp
    also have "\<dots> < 18 * len * P + 2 * P" using lenP by simp
    also have "\<dots> = 2 * ((9 * len + 1) * P)" by (simp add: algebra_simps)
    also have "\<dots> \<le> 2 * ((10 * t + 10) * P)"
    proof -
      from t(2) have "9 * len + 1 \<le> 10 * t + 10" by simp
      then have "(9 * len + 1) * P \<le> (10 * t + 10) * P" by (rule mult_le_mono1)
      then show ?thesis by (rule mult_le_mono2)
    qed
    finally have "20 * round53 N < 20 * ((t + 1) * P)" by (simp add: algebra_simps)
    then show ?thesis by simp
  qed
  from lower upper have "round53 N div P = t"
    by (intro div_nat_eqI) (simp_all add: mult.commute)
  then show ?thesis by (simp add: split_point_def r N_def t_def P_def)
qed


section \<open>Train and validation split\<close>

text \<open>
  Claim C8. The split is a function of the corpus alone; the training sequence followed by
  the validation sequence is the corpus, and their lengths add up to its length. For a
  corpus of fewer than \<open>2 ^ 49\<close> tokens the double-precision split point is exactly
  \<open>\<lfloor>9 * len / 10\<rfloor>\<close>: the training sequence is the first nine tenths, the validation
  sequence the rest.
\<close>

theorem split_reconstructs:
  "train_data data @ val_data data = data \<and>
   length (train_data data) + length (val_data data) = length data \<and>
   (length data < 2 ^ 49 \<longrightarrow>
      train_data data = take (9 * length data div 10) data \<and>
      val_data data = drop (9 * length data div 10) data)"
  by (simp add: train_data_def val_data_def split_point_eq)

theorem split_reconstructs_witness:
  "train_data [10, 11, 12, 13, 14, 15, 16, 17, 18, 19 :: int] = [10, 11, 12, 13, 14, 15, 16, 17, 18] \<and>
   val_data [10, 11, 12, 13, 14, 15, 16, 17, 18, 19 :: int] = [19]"
  using split_reconstructs [of "[10, 11, 12, 13, 14, 15, 16, 17, 18, 19 :: int]"]
  by simp

section \<open>Batches are shifted windows\<close>

lemma slice_length: "i + n \<le> length xs \<Longrightarrow> length (slice xs i (i + n)) = n"
  by (simp add: slice_def)

lemma slice_nth: "i + n \<le> length xs \<Longrightarrow> k < n \<Longrightarrow> slice xs i (i + n) ! k = xs ! (i + k)"
  by (simp add: slice_def)

lemma stack_same_length:
  "ts \<noteq> [] \<Longrightarrow> \<forall>t \<in> set ts. length t = n \<Longrightarrow> stack ts = Inr ts"
  by (cases ts) (auto simp: stack_def list_all_iff)

lemma randint_ok:
  "0 < high \<Longrightarrow> \<exists>ix. randint g high sz = Inr ix \<and> length ix = sz \<and> (\<forall>i \<in> set ix. int i < high)"
proof -
  assume h: "0 < high"
  have "int (g k mod nat high) < high" for k
  proof -
    from h have "g k mod nat high < nat high" by simp
    then have "int (g k mod nat high) < int (nat high)" by (simp only: of_nat_less_iff)
    with h show ?thesis by simp
  qed
  with h show ?thesis by (simp add: randint_def)
qed

text \<open>
  Claim C7. Let \<open>data\<close> be the chosen split. When it is longer than \<open>block_size\<close>,
  \<^verbatim>\<open>get_batch\<close> returns \<open>batch_size\<close> pairs of windows; the pair \<open>b\<close> starts at an offset
  \<open>ix ! b\<close> in \<open>[0, len(data) - block_size)\<close>, both windows have length \<open>block_size\<close>, the
  input window is \<open>data[i : i + block_size]\<close>, the target at \<open>k\<close> is the source element at
  \<open>i + k + 1\<close> (so the last target is one past the input window), and the target at \<open>k\<close> is
  the input at \<open>k + 1\<close> for \<open>k < block_size - 1\<close>.
\<close>

theorem get_batch_windows:
  assumes "data = (if split = ''train'' then train_data corpus else val_data corpus)"
    and "block_size hp < length data" and "0 < batch_size hp"
  shows "\<exists>x y ix. get_batch hp g corpus split = Inr (x, y) \<and>
           length x = batch_size hp \<and> length y = batch_size hp \<and>
           length ix = batch_size hp \<and>
           (\<forall>b < batch_size hp.
              ix ! b < length data - block_size hp \<and>
              x ! b = slice data (ix ! b) (ix ! b + block_size hp) \<and>
              length (x ! b) = block_size hp \<and> length (y ! b) = block_size hp \<and>
              (\<forall>k < block_size hp. x ! b ! k = data ! (ix ! b + k) \<and>
                                    y ! b ! k = data ! (ix ! b + k + 1)) \<and>
              (\<forall>k. k + 1 < block_size hp \<longrightarrow> y ! b ! k = x ! b ! (k + 1)))"
proof -
  define B where "B = block_size hp"
  define h where "h = int (length data) - int B"
  from assms(2) have h: "0 < h" by (simp add: h_def B_def)
  from randint_ok [OF h, of g "batch_size hp"] obtain ix where
    ix: "randint g h (batch_size hp) = Inr ix" "length ix = batch_size hp"
      "\<forall>i \<in> set ix. int i < h" by blast
  define x where "x = map (\<lambda>i. slice data i (i + B)) ix"
  define y where "y = map (\<lambda>i. slice data (i + 1) (i + 1 + B)) ix"
  have rng: "i + 1 + B \<le> length data" if "i \<in> set ix" for i
    using ix(3) that by (auto simp: h_def)
  from ix(2) assms(3) have ne: "ix \<noteq> []" by auto
  have lx: "length (slice data i (i + B)) = B" if "i \<in> set ix" for i
    using rng [OF that] by (intro slice_length) simp
  have ly: "length (slice data (i + 1) (i + 1 + B)) = B" if "i \<in> set ix" for i
    using rng [OF that] by (intro slice_length) simp
  have sx: "stack x = Inr x"
    using ne lx by (intro stack_same_length [where n = B]) (auto simp: x_def)
  have sy: "stack y = Inr y"
    using ne ly by (intro stack_same_length [where n = B]) (auto simp: y_def)
  have gb: "get_batch hp g corpus split = Inr (x, y)"
    using ix(1) sx sy assms(1)
    by (simp add: get_batch_def Let_def h_def B_def x_def y_def)
  have win: "ix ! b < length data - B \<and> x ! b = slice data (ix ! b) (ix ! b + B) \<and>
      length (x ! b) = B \<and> length (y ! b) = B \<and>
      (\<forall>k < B. x ! b ! k = data ! (ix ! b + k) \<and> y ! b ! k = data ! (ix ! b + k + 1)) \<and>
      (\<forall>k. k + 1 < B \<longrightarrow> y ! b ! k = x ! b ! (k + 1))"
    if b: "b < batch_size hp" for b
  proof -
    from b ix(2) have mem: "ix ! b \<in> set ix" by simp
    from rng [OF mem] have r: "ix ! b + 1 + B \<le> length data" .
    then have r0: "ix ! b + B \<le> length data" by simp
    from b ix(2) have xb: "x ! b = slice data (ix ! b) (ix ! b + B)"
      and yb: "y ! b = slice data (ix ! b + 1) (ix ! b + 1 + B)"
      by (simp_all add: x_def y_def)
    have xk: "x ! b ! k = data ! (ix ! b + k)" if "k < B" for k
      using slice_nth [OF r0 that] by (simp add: xb)
    have yk: "y ! b ! k = data ! (ix ! b + k + 1)" if "k < B" for k
      using slice_nth [OF r that] by (simp add: yb add.commute add.left_commute)
    from r have "ix ! b < length data - B" by simp
    moreover have "length (x ! b) = B" using slice_length [OF r0] by (simp add: xb)
    moreover have "length (y ! b) = B" using slice_length [OF r] by (simp add: yb)
    moreover have "\<forall>k. k + 1 < B \<longrightarrow> y ! b ! k = x ! b ! (k + 1)"
      using xk yk by simp
    ultimately show ?thesis using xb xk yk by simp
  qed
  have len: "length x = batch_size hp" "length y = batch_size hp"
    by (simp_all add: x_def y_def ix(2))
  show ?thesis
    apply (rule exI [of _ x], rule exI [of _ y], rule exI [of _ ix])
    using gb len ix(2) win unfolding B_def by blast
qed


theorem get_batch_windows_witness:
  "\<exists>x y. get_batch \<lparr>batch_size = 2, block_size = 3, n_embed = 4, n_head = 2, n_layer = 1,
             dropout = 0\<rparr> (\<lambda>k. 7 * k + 5) [10, 11, 12, 13, 14, 15, 16, 17, 18, 19 :: int] ''train''
          = Inr (x, y) \<and>
        length x = 2 \<and> length y = 2 \<and>
        (\<forall>b < 2. length (x ! b) = 3 \<and> length (y ! b) = 3 \<and>
           (\<forall>k. k + 1 < 3 \<longrightarrow> y ! b ! k = x ! b ! (k + 1)))"
proof -
  define hp where "hp = \<lparr>batch_size = 2, block_size = 3, n_embed = 4, n_head = 2, n_layer = 1,
    dropout = 0\<rparr>"
  define c where "c = [10, 11, 12, 13, 14, 15, 16, 17, 18, 19 :: int]"
  define data where "data = (if ''train'' = ''train'' then train_data c else val_data c)"
  have "length data = 9"
    by (simp add: data_def c_def train_data_def split_point_eq)
  then have h1: "block_size hp < length data" by (simp add: hp_def)
  have h2: "0 < batch_size hp" by (simp add: hp_def)
  from get_batch_windows [OF data_def h1 h2, of "\<lambda>k. 7 * k + 5"]
  show ?thesis unfolding hp_def c_def by simp blast
qed

section \<open>Shape lemmas\<close>

lemma ebind_Inr [simp]: "ebind (Inr x) f = f x"
  by (simp add: ebind_def)

lemma ebind_Inl [simp]: "ebind (Inl e) f = Inl e"
  by (simp add: ebind_def)

lemma Dropout_ok: "0 \<le> p \<Longrightarrow> p \<le> 1 \<Longrightarrow> Dropout p = Inr p"
  by (simp add: Dropout_def)

lemma MultiHeadAttention_ok:
  "0 \<le> dropout hp \<Longrightarrow> dropout hp \<le> 1 \<Longrightarrow>
   MultiHeadAttention hp ne =
     Inr \<lparr>attn = Linear ne (3 * ne), proj = Linear ne ne, attn_dropout = dropout hp,
          resid_dropout = dropout hp, tril = [block_size hp, block_size hp]\<rparr>"
  by (simp add: MultiHeadAttention_def Dropout_ok)

lemma split_three:
  assumes "0 < ne"
  shows "split_shape [B, T, 3 * ne] ne 2 = Inr [[B, T, ne], [B, T, ne], [B, T, ne]]"
proof -
  from assms have "(3 * ne + ne - 1) div ne = 3"
    by (intro div_nat_eqI) simp_all
  with assms have "split_sizes (3 * ne) ne = Inr [ne, ne, ne]"
    by (simp add: split_sizes_def Let_def numeral_3_eq_3)
  then show ?thesis
    by (simp add: split_shape_def norm_dim_def)
qed

lemma to_heads_ok:
  assumes "0 < n_head hp" and "n_head hp dvd C"
  shows "to_heads hp B T C [B, T, C] = Inr [B, n_head hp, T, C div n_head hp]"
  using assms
  by (simp add: to_heads_def view_def numel_def transpose_shape_def norm_dim_def)

lemma to_heads_indivisible:
  assumes "0 < n_head hp" and "\<not> n_head hp dvd C" and "0 < B" and "0 < T"
  shows "to_heads hp B T C [B, T, C] = Inl RuntimeError"
proof -
  from assms(2) have "n_head hp * (C div n_head hp) \<noteq> C"
    by (metis dvd_triv_left)
  with assms show ?thesis
    by (simp add: to_heads_def view_def numel_def)
qed

lemma broadcast_same2: "broadcast [a, b] [a, b] = Inr [a, b]"
  by (simp add: broadcast_def)

lemma mask_broadcast:
  assumes "1 \<le> T" and "T \<le> bs"
  shows "broadcast [B, nh, T, T] [bs, bs] =
           (if T = bs then Inr [B, nh, T, T]
            else if T = 1 then Inr [B, nh, bs, bs] else Inl RuntimeError)"
  using assms by (auto simp: broadcast_def)

lemma mha_forward_full:
  assumes m: "MultiHeadAttention hp (n_embed hp) = Inr m"
    and nh: "0 < n_head hp" and dv: "n_head hp dvd n_embed hp" and ne: "0 < n_embed hp"
    and T: "1 \<le> T" "T \<le> block_size hp"
  shows "mha_forward hp m [B, T, n_embed hp] =
           (if T = block_size hp then Inr [B, T, n_embed hp] else Inl RuntimeError)"
proof -
  define C where "C = n_embed hp"
  define hs where "hs = C div n_head hp"
  from m have am: "attn m = Linear C (3 * C)" "proj m = Linear C C"
    "tril m = [block_size hp, block_size hp]"
    by (auto simp: MultiHeadAttention_def ebind_def C_def split: sum.splits)
  from dv have hs2: "n_head hp * hs = C"
    by (simp add: hs_def C_def)
  with ne have hs1: "0 < hs"
    by (cases hs) (simp_all add: C_def)
  note hs = hs1 hs2
  have lin: "linear_forward (attn m) [B, T, C] = Inr [B, T, 3 * C]"
    by (simp add: am linear_forward_def Linear_def)
  have sp: "split_shape [B, T, 3 * C] C 2 = Inr [[B, T, C], [B, T, C], [B, T, C]]"
    using split_three [of C B T] ne by (simp add: C_def)
  have th: "to_heads hp B T C [B, T, C] = Inr [B, n_head hp, T, hs]"
    using to_heads_ok [OF nh, of C B T] dv by (simp add: C_def hs_def)
  have kT: "transpose_shape (- 2) (- 1) [B, n_head hp, T, hs] = Inr [B, n_head hp, hs, T]"
    by (simp add: transpose_shape_def norm_dim_def)
  have qk: "matmul [B, n_head hp, T, hs] [B, n_head hp, hs, T] = Inr [B, n_head hp, T, T]"
    by (simp add: matmul_def broadcast_same2)
  have sc: "inv_sqrt_head_size [B, n_head hp, T, hs] = Inr ()"
    using hs(1) by (simp add: inv_sqrt_head_size_def)
  note mb = mask_broadcast [OF T, of B "n_head hp"]
  show ?thesis
  proof (cases "T = block_size hp")
    case True
    have av: "matmul [B, n_head hp, T, T] [B, n_head hp, T, hs] = Inr [B, n_head hp, T, hs]"
      by (simp add: matmul_def broadcast_same2)
    have tr: "transpose_shape 1 2 [B, n_head hp, T, hs] = Inr [B, T, n_head hp, hs]"
      by (simp add: transpose_shape_def norm_dim_def)
    have vw: "view [B, T, n_head hp, hs] [B, T, C] = Inr [B, T, C]"
      using hs(2) by (simp add: view_def numel_def)
    have pr: "linear_forward (proj m) [B, T, C] = Inr [B, T, C]"
      by (simp add: am linear_forward_def Linear_def)
    from True mb have bb: "broadcast [B, n_head hp, T, T] (tril m) = Inr [B, n_head hp, T, T]"
      by (simp add: am)
    from True have bs: "block_size hp = T" by simp
    show ?thesis unfolding bs
      by (simp add: mha_forward_def C_def [symmetric] lin sp th kT qk sc bb av tr vw pr)
  next
    case False
    show ?thesis
    proof (cases "T = 1")
      case True
      from False True mb have b: "broadcast [B, n_head hp, T, T] (tril m) =
          Inr [B, n_head hp, block_size hp, block_size hp]"
        by (simp add: am)
      from False True have mm: "matmul [B, n_head hp, block_size hp, block_size hp]
          [B, n_head hp, T, hs] = Inl RuntimeError"
        by (simp add: matmul_def)
      from False show ?thesis
        by (simp add: mha_forward_def C_def [symmetric] lin sp th kT qk sc b mm)
    next
      case T1: False
      from False T1 mb have b: "broadcast [B, n_head hp, T, T] (tril m) = Inl RuntimeError"
        by (simp add: am)
      from False show ?thesis
        by (simp add: mha_forward_def C_def [symmetric] lin sp th kT qk sc b)
    qed
  qed
qed


lemma mha_forward_indivisible:
  assumes m: "MultiHeadAttention hp (n_embed hp) = Inr m"
    and dv: "\<not> n_head hp dvd n_embed hp" and B: "0 < B" and T: "0 < T"
  shows "mha_forward hp m [B, T, n_embed hp] =
           Inl (if n_head hp = 0 then ZeroDivisionError else RuntimeError)"
proof -
  define C where "C = n_embed hp"
  from m have am: "attn m = Linear C (3 * C)"
    by (auto simp: MultiHeadAttention_def ebind_def C_def split: sum.splits)
  from dv have ne: "0 < C" by (cases C) (simp_all add: C_def)
  have lin: "linear_forward (attn m) [B, T, C] = Inr [B, T, 3 * C]"
    by (simp add: am linear_forward_def Linear_def)
  have sp: "split_shape [B, T, 3 * C] C 2 = Inr [[B, T, C], [B, T, C], [B, T, C]]"
    using split_three [OF ne] .
  have th: "to_heads hp B T C [B, T, C] =
      Inl (if n_head hp = 0 then ZeroDivisionError else RuntimeError)"
  proof (cases "n_head hp = 0")
    case True
    then show ?thesis by (simp add: to_heads_def)
  next
    case False
    with to_heads_indivisible [of hp C B T] dv B T show ?thesis by (simp add: C_def)
  qed
  show ?thesis
    by (simp add: mha_forward_def C_def [symmetric] lin sp th)
qed

lemma Blocks_ok:
  assumes "0 \<le> dropout hp" and "dropout hp \<le> 1"
  shows "Blocks hp n = Inr (replicate n
     \<lparr>sa = \<lparr>attn = Linear (n_embed hp) (3 * n_embed hp), proj = Linear (n_embed hp) (n_embed hp),
               attn_dropout = dropout hp, resid_dropout = dropout hp,
               tril = [block_size hp, block_size hp]\<rparr>,
      ffwd = \<lparr>fc1 = Linear (n_embed hp) (4 * n_embed hp), fc2 = Linear (4 * n_embed hp) (n_embed hp),
               ff_dropout = dropout hp\<rparr>,
      ln1 = n_embed hp, ln2 = n_embed hp\<rparr>)"
  using assms
  by (induction n) (simp_all add: Block_def FeedForward_def MultiHeadAttention_ok Dropout_ok)

lemma BigramLanguageModel_ok:
  assumes "0 \<le> dropout hp" and "dropout hp \<le> 1"
  shows "\<exists>bs. BigramLanguageModel hp vs =
     Inr \<lparr>token_embedding_table = Embedding vs (n_embed hp),
          position_embedding_table = Embedding (block_size hp) (n_embed hp),
          blocks = bs, ln_f = n_embed hp, lm_head = Linear (n_embed hp) vs\<rparr> \<and>
     Blocks hp (n_layer hp) = Inr bs"
  using Blocks_ok [OF assms, of "n_layer hp"] by (simp add: BigramLanguageModel_def)

lemma broadcast_rev_refl: "broadcast_rev xs xs = Inr xs"
  by (induction xs) simp_all

lemma broadcast_refl: "broadcast s s = Inr s"
  by (simp add: broadcast_def broadcast_rev_refl)

lemma broadcast_positions: "broadcast [B, T, C] [T, C] = Inr [B, T, C]"
  by (simp add: broadcast_def)

lemma block_forward_ok:
  assumes b: "Block hp (n_embed hp) (n_head hp) = Inr b"
    and nh: "0 < n_head hp" and dv: "n_head hp dvd n_embed hp" and ne: "0 < n_embed hp"
    and T: "1 \<le> T" "T \<le> block_size hp"
  shows "block_forward hp b [B, T, n_embed hp] =
           (if T = block_size hp then Inr [B, T, n_embed hp] else Inl RuntimeError)"
proof -
  from b obtain m f where m: "MultiHeadAttention hp (n_embed hp) = Inr m"
    and f: "FeedForward hp (n_embed hp) = Inr f"
    and bb: "b = \<lparr>sa = m, ffwd = f, ln1 = n_embed hp, ln2 = n_embed hp\<rparr>"
    by (auto simp: Block_def ebind_def split: sum.splits)
  from f have ff: "fc1 f = Linear (n_embed hp) (4 * n_embed hp)"
    "fc2 f = Linear (4 * n_embed hp) (n_embed hp)"
    by (auto simp: FeedForward_def ebind_def split: sum.splits)
  have fwd: "feed_forward_forward f [B, T, n_embed hp] = Inr [B, T, n_embed hp]"
    by (simp add: feed_forward_forward_def ff linear_forward_def Linear_def)
  note at = mha_forward_full [OF m nh dv ne T, of B]
  show ?thesis
  proof (cases "T = block_size hp")
    case True
    with at have at': "mha_forward hp m [B, T, n_embed hp] = Inr [B, T, n_embed hp]"
      by simp
    from True have bs: "block_size hp = T" by simp
    show ?thesis unfolding bs
      by (simp add: block_forward_def bb layer_norm_forward_def at' broadcast_refl fwd)
  next
    case False
    with at have at': "mha_forward hp m [B, T, n_embed hp] = Inl RuntimeError"
      by simp
    from False show ?thesis
      by (simp add: block_forward_def bb layer_norm_forward_def at')
  qed
qed

lemma Blocks_replicate:
  "Blocks hp n = Inr bs \<Longrightarrow>
   \<exists>b. Block hp (n_embed hp) (n_head hp) = Inr b \<and> bs = replicate n b \<or> n = 0 \<and> bs = []"
proof (induction n arbitrary: bs)
  case 0
  then show ?case by simp
next
  case (Suc n)
  from Suc.prems obtain b bs' where b: "Block hp (n_embed hp) (n_head hp) = Inr b"
    and bs': "Blocks hp n = Inr bs'" and bs: "bs = b # bs'"
    by (auto simp: ebind_def split: sum.splits)
  from Suc.IH [OF bs'] b have "bs' = replicate n b" by auto
  with b bs show ?case by simp
qed

lemma blocks_forward_replicate:
  assumes b: "Block hp (n_embed hp) (n_head hp) = Inr b"
    and nh: "0 < n_head hp" and dv: "n_head hp dvd n_embed hp" and ne: "0 < n_embed hp"
    and bs: "0 < block_size hp"
  shows "blocks_forward hp (replicate n b) [B, block_size hp, n_embed hp] =
           Inr [B, block_size hp, n_embed hp]"
proof (induction n)
  case 0
  show ?case by simp
next
  case (Suc n)
  from bs have T: "1 \<le> block_size hp" "block_size hp \<le> block_size hp" by simp_all
  from block_forward_ok [OF b nh dv ne T, of B] Suc show ?case by simp
qed

lemma logits_shape_ok:
  assumes mdl: "BigramLanguageModel hp vs = Inr mdl"
    and nh: "0 < n_head hp" and dv: "n_head hp dvd n_embed hp" and ne: "0 < n_embed hp"
    and bs: "0 < block_size hp"
    and idx: "idx \<noteq> []" "\<forall>r \<in> set idx. length r = block_size hp"
    and ids: "\<forall>r \<in> set idx. \<forall>i \<in> set r. 0 \<le> i \<and> i < int vs"
  shows "logits_shape hp mdl idx = Inr [length idx, block_size hp, vs]"
proof -
  from mdl obtain bl where bl: "Blocks hp (n_layer hp) = Inr bl"
    and m: "mdl = \<lparr>token_embedding_table = Embedding vs (n_embed hp),
          position_embedding_table = Embedding (block_size hp) (n_embed hp),
          blocks = bl, ln_f = n_embed hp, lm_head = Linear (n_embed hp) vs\<rparr>"
    by (auto simp: BigramLanguageModel_def ebind_def split: sum.splits)
  from idx have sh: "ids_shape idx = [length idx, block_size hp]"
    by (cases idx) (simp_all add: ids_shape_def)
  have tok: "embedding_forward (Embedding vs (n_embed hp)) [length idx, block_size hp] (concat idx)
      = Inr [length idx, block_size hp, n_embed hp]"
    using ids by (auto simp: embedding_forward_def Embedding_def list_all_iff)
  have pos: "embedding_forward (Embedding (block_size hp) (n_embed hp)) [block_size hp]
      (map int [0..<block_size hp]) = Inr [block_size hp, n_embed hp]"
    by (auto simp: embedding_forward_def Embedding_def list_all_iff)
  have blk: "blocks_forward hp bl [length idx, block_size hp, n_embed hp] =
      Inr [length idx, block_size hp, n_embed hp]"
  proof -
    from Blocks_replicate [OF bl] consider
      b where "Block hp (n_embed hp) (n_head hp) = Inr b" "bl = replicate (n_layer hp) b"
      | "bl = []" by blast
    then show ?thesis
    proof cases
      case 1
      with blocks_forward_replicate [OF 1(1) nh dv ne bs] show ?thesis by simp
    next
      case 2
      then show ?thesis by simp
    qed
  qed
  show ?thesis
    by (simp add: logits_shape_def sh m tok pos broadcast_positions blk
        layer_norm_forward_def linear_forward_def Linear_def)
qed

lemma concat_nth_rect:
  assumes "\<forall>r \<in> set xss. length r = T" and "b < length xss" and "t < T"
  shows "concat xss ! (b * T + t) = xss ! b ! t"
  using assms
proof (induction xss arbitrary: b)
  case Nil
  then show ?case by simp
next
  case (Cons r xss)
  show ?case
  proof (cases b)
    case 0
    with Cons.prems show ?thesis by (simp add: nth_append)
  next
    case (Suc b')
    with Cons.prems have "concat xss ! (b' * T + t) = xss ! b' ! t"
      by (intro Cons.IH) simp_all
    with Suc Cons.prems show ?thesis by (simp add: nth_append)
  qed
qed

lemma length_concat_rect:
  "\<forall>r \<in> set xss. length r = T \<Longrightarrow> length (concat xss) = length xss * T"
  by (induction xss) simp_all

lemma forward_loss_iff:
  "forward hp mdl net idx targets = Inr (logits, loss) \<Longrightarrow> (loss = None) = (targets = None)"
  by (auto simp: forward_def ebind_def Let_def split: sum.splits option.splits list.splits)

lemma cross_entropy_mean:
  assumes "length targets = N" and "\<forall>t \<in> set targets. 0 \<le> t \<and> t < int C"
  shows "cross_entropy \<lparr>dims = [N, C], elems = xs\<rparr> targets =
     Inr ((\<Sum>n<N. - ln (softmax (row \<lparr>dims = [N, C], elems = xs\<rparr> n) ! nat (targets ! n)))
          / real N)"
proof -
  have all: "list_all (\<lambda>t. t = - 100 \<or> (0 \<le> t \<and> t < int C)) targets"
    using assms(2) by (auto simp: list_all_iff)
  have "targets ! n \<noteq> - 100" if "n < N" for n
    using assms that by (metis nth_mem not_less zero_less_numeral neg_less_0_iff_less)
  then have kept: "filter (\<lambda>n. targets ! n \<noteq> - 100) [0..<N] = [0..<N]"
    by (simp add: filter_id_conv)
  show ?thesis
    by (simp add: cross_entropy_def assms(1) all kept Let_def
        interv_sum_list_conv_sum_set_nat atLeast0LessThan)
qed


section \<open>Attention: shapes and failures\<close>

text \<open>
  Claim C1, as the code has it. The mask buffer is not cut to the sequence length: for an
  input of shape \<open>(B, T, n_embed)\<close> with \<open>1 \<le> T \<le> block_size\<close> (head count positive and
  dividing the embedding size) the forward pass of the fused attention returns a tensor of
  the shape of its input when \<open>T = block_size\<close>, and raises \<^verbatim>\<open>RuntimeError\<close> for every
  shorter sequence.
\<close>

theorem attention_shape:
  assumes "MultiHeadAttention hp (n_embed hp) = Inr m"
    and "0 < n_head hp" and "n_head hp dvd n_embed hp" and "0 < n_embed hp"
    and "1 \<le> T" and "T \<le> block_size hp"
  shows "mha_forward hp m [B, T, n_embed hp] =
           (if T = block_size hp then Inr [B, T, n_embed hp] else Inl RuntimeError)"
  using assms by (rule mha_forward_full)

theorem attention_shape_witness:
  "(\<exists>m. MultiHeadAttention hyper (n_embed hyper) = Inr m \<and>
        mha_forward hyper m [64, 30, 40] = Inr [64, 30, 40] \<and>
        mha_forward hyper m [64, 29, 40] = Inl RuntimeError)"
proof -
  obtain m where m: "MultiHeadAttention hyper (n_embed hyper) = Inr m"
    using MultiHeadAttention_ok [of hyper "n_embed hyper"] by (simp add: hyper_def)
  have h: "0 < n_head hyper" "n_head hyper dvd n_embed hyper" "0 < n_embed hyper"
    by (simp_all add: hyper_def)
  have "1 \<le> (30::nat)" "30 \<le> block_size hyper" "1 \<le> (29::nat)" "29 \<le> block_size hyper"
    by (simp_all add: hyper_def)
  from attention_shape [OF m h this(1,2), of 64] attention_shape [OF m h this(3,4), of 64] m
  show ?thesis by (auto simp: hyper_def)
qed

text \<open>
  With the hyperparameters of the script (\<open>block_size = 30\<close>), an input of shape
  \<open>(1, 5, 40)\<close> makes the forward pass raise: \<^verbatim>\<open>masked_fill\<close> cannot broadcast the
  \<open>5 \<times> 5\<close> scores against the \<open>30 \<times> 30\<close> mask.
\<close>

theorem attention_short_sequence_fails:
  "(5::nat) \<le> block_size hyper \<and> n_embed hyper = 40 \<and>
   ebind (MultiHeadAttention hyper (n_embed hyper)) (\<lambda>m. mha_forward hyper m [1, 5, 40])
     = Inl RuntimeError"
proof -
  have "MultiHeadAttention hyper (n_embed hyper) =
      Inr \<lparr>attn = Linear 40 120, proj = Linear 40 40, attn_dropout = 2 / 10,
           resid_dropout = 2 / 10, tril = [30, 30]\<rparr>"
    by (simp add: MultiHeadAttention_def Dropout_def hyper_def)
  moreover have "mha_forward hyper \<lparr>attn = Linear 40 120, proj = Linear 40 40, attn_dropout = 2 / 10,
           resid_dropout = 2 / 10, tril = [30, 30]\<rparr> [1, 5, 40] = Inl RuntimeError"
    by (simp add: mha_forward_def hyper_def linear_forward_def Linear_def split_shape_def
        split_sizes_def norm_dim_def to_heads_def view_def numel_def transpose_shape_def
        matmul_def broadcast_def inv_sqrt_head_size_def Let_def numeral_3_eq_3)
  ultimately show ?thesis by (simp add: hyper_def)
qed

text \<open>
  Claim C3, as the code has it. When the head count does not divide the embedding size,
  constructing the attention layer and the model succeeds (the constructors make no such
  check); the error is raised by the forward pass, for every input with at least one
  element: \<^verbatim>\<open>ZeroDivisionError\<close> from \<^verbatim>\<open>C // n_head\<close> when the head count is 0, and
  otherwise \<^verbatim>\<open>RuntimeError\<close> from the first \<^verbatim>\<open>view\<close>.
\<close>

theorem indivisible_fails_at_forward:
  assumes "\<not> n_head hp dvd n_embed hp" and "0 \<le> dropout hp" and "dropout hp \<le> 1"
    and "0 < B" and "0 < T"
  shows "\<exists>m mdl. MultiHeadAttention hp (n_embed hp) = Inr m \<and>
           BigramLanguageModel hp vs = Inr mdl \<and>
           mha_forward hp m [B, T, n_embed hp] =
             Inl (if n_head hp = 0 then ZeroDivisionError else RuntimeError)"
proof -
  from MultiHeadAttention_ok [OF assms(2,3)] obtain m
    where m: "MultiHeadAttention hp (n_embed hp) = Inr m" by blast
  from BigramLanguageModel_ok [OF assms(2,3)] obtain mdl
    where "BigramLanguageModel hp vs = Inr mdl" by blast
  with m mha_forward_indivisible [OF m assms(1,4,5)] show ?thesis by blast
qed

theorem indivisible_fails_at_forward_witness:
  "\<exists>m mdl. MultiHeadAttention (hyper\<lparr>n_embed := 10\<rparr>) 10 = Inr m \<and>
           BigramLanguageModel (hyper\<lparr>n_embed := 10\<rparr>) 65 = Inr mdl \<and>
           mha_forward (hyper\<lparr>n_embed := 10\<rparr>) m [64, 30, 10] = Inl RuntimeError"
  using indivisible_fails_at_forward [of "hyper\<lparr>n_embed := 10\<rparr>" 64 30 65]
  by (simp add: hyper_def)

text \<open>
  With \<open>n_embed = 10\<close> and \<open>n_head = 4\<close> both constructors return an object.
\<close>

theorem indivisible_constructs:
  "\<not> n_head (hyper\<lparr>n_embed := 10\<rparr>) dvd n_embed (hyper\<lparr>n_embed := 10\<rparr>) \<and>
   MultiHeadAttention (hyper\<lparr>n_embed := 10\<rparr>) 10 =
     Inr \<lparr>attn = Linear 10 30, proj = Linear 10 10, attn_dropout = 2 / 10,
          resid_dropout = 2 / 10, tril = [30, 30]\<rparr> \<and>
   ebind (BigramLanguageModel (hyper\<lparr>n_embed := 10\<rparr>) 65) (\<lambda>mdl. Inr (length (blocks mdl)))
     = Inr 3"
proof -
  have d: "(0::rat) \<le> dropout (hyper\<lparr>n_embed := 10\<rparr>)" "dropout (hyper\<lparr>n_embed := 10\<rparr>) \<le> 1"
    by (simp_all add: hyper_def)
  from MultiHeadAttention_ok [OF d, of 10] Blocks_ok [OF d, of 3]
  show ?thesis by (simp add: hyper_def BigramLanguageModel_def)
qed

section \<open>Empty vocabulary\<close>

text \<open>
  Claim C4, as the code has it. With an empty corpus the vocabulary size is 0 and the model
  is constructed all the same, with an embedding table of no row and an output projection
  of no output; the first exception of the script is raised later, by \<^verbatim>\<open>torch.randint\<close> in
  \<^verbatim>\<open>get_batch\<close>.
\<close>

theorem empty_vocabulary_constructs:
  assumes "0 \<le> dropout hp" and "dropout hp \<le> 1"
  shows "\<exists>mdl. BigramLanguageModel hp (vocab_size ([] :: nat list)) = Inr mdl \<and>
           num_embeddings (token_embedding_table mdl) = 0 \<and>
           out_features (lm_head mdl) = 0 \<and>
           get_batch hp g ([] :: int list) split = Inl RuntimeError"
proof -
  have v: "vocab_size ([] :: nat list) = 0" by (simp add: vocab_size_def chars_def)
  have "get_batch hp g ([] :: int list) split = Inl RuntimeError"
    by (simp add: get_batch_def train_data_def val_data_def randint_def)
  with BigramLanguageModel_ok [OF assms, of 0] v show ?thesis
    by (auto simp: Embedding_def Linear_def)
qed

theorem empty_vocabulary_constructs_witness:
  "\<exists>mdl. BigramLanguageModel hyper (vocab_size ([] :: nat list)) = Inr mdl \<and>
         num_embeddings (token_embedding_table mdl) = 0 \<and>
         get_batch hyper (\<lambda>k. k) ([] :: int list) ''train'' = Inl RuntimeError"
  using empty_vocabulary_constructs [of hyper "\<lambda>k. k" "''train''"] by (auto simp: hyper_def)

text \<open>
  With the hyperparameters of the script and the empty corpus the constructor returns a
  model.
\<close>

theorem empty_vocabulary_no_failure:
  "vocab_size ([] :: nat list) = 0 \<and>
   ebind (BigramLanguageModel hyper (vocab_size ([] :: nat list)))
     (\<lambda>mdl. Inr (token_embedding_table mdl, lm_head mdl)) = Inr (Embedding 0 40, Linear 40 0)"
proof -
  have d: "0 \<le> dropout hyper" "dropout hyper \<le> 1" by (simp_all add: hyper_def)
  from Blocks_ok [OF d, of 3] show ?thesis
    by (simp add: vocab_size_def chars_def hyper_def BigramLanguageModel_def)
qed


section \<open>Loss of the forward pass\<close>

text \<open>
  Claim C6. For a model built by the constructor and a batch of \<open>B\<close> rows of
  \<open>block_size\<close> valid ids: without targets the forward pass returns the logits of shape
  \<open>(B, T, vocab_size)\<close> and no loss; with targets (\<open>B\<close> rows of \<open>T\<close> valid ids) it returns the
  logits viewed as \<open>(B * T, vocab_size)\<close> and the loss, which is the mean over all \<open>B * T\<close>
  positions of the negative log softmax probability of the target id, position
  \<open>b * T + t\<close> of the flattened axis holding target \<open>(b, t)\<close>. For every input, whenever the
  forward pass returns, the loss is absent exactly when the targets are. The numbers are
  reals.
\<close>

theorem forward_loss:
  assumes mdl: "BigramLanguageModel hp vs = Inr mdl"
    and nh: "0 < n_head hp" and dv: "n_head hp dvd n_embed hp" and ne: "0 < n_embed hp"
    and bs: "0 < block_size hp"
    and idx: "idx \<noteq> []" "\<forall>r \<in> set idx. length r = block_size hp"
    and ids: "\<forall>r \<in> set idx. \<forall>i \<in> set r. 0 \<le> i \<and> i < int vs"
    and tg: "length tg = length idx" "\<forall>r \<in> set tg. length r = block_size hp"
      "\<forall>r \<in> set tg. \<forall>t \<in> set r. 0 \<le> t \<and> t < int vs"
  shows "forward hp mdl net idx None =
           Inr (\<lparr>dims = [length idx, block_size hp, vs],
                 elems = map (net idx) [0..<length idx * block_size hp * vs]\<rparr>, None) \<and>
         forward hp mdl net idx (Some tg) =
           Inr (\<lparr>dims = [length idx * block_size hp, vs],
                 elems = map (net idx) [0..<length idx * block_size hp * vs]\<rparr>,
                Some ((\<Sum>n < length idx * block_size hp.
                         - ln (softmax (row \<lparr>dims = [length idx * block_size hp, vs],
                                elems = map (net idx) [0..<length idx * block_size hp * vs]\<rparr> n)
                               ! nat (concat tg ! n)))
                      / real (length idx * block_size hp))) \<and>
         (\<forall>b < length idx. \<forall>t < block_size hp.
            concat tg ! (b * block_size hp + t) = tg ! b ! t) \<and>
         (\<forall>idx' targets logits loss.
            forward hp mdl net idx' targets = Inr (logits, loss) \<longrightarrow>
              (loss = None) = (targets = None))"
proof -
  define B where "B = length idx"
  define T where "T = block_size hp"
  define xs where "xs = map (net idx) [0..<B * T * vs]"
  have ls: "logits_shape hp mdl idx = Inr [B, T, vs]"
    using logits_shape_ok [OF mdl nh dv ne bs idx ids] by (simp add: B_def T_def)
  have ne': "numel [B, T, vs] = B * T * vs" by (simp add: numel_def)
  have 1: "forward hp mdl net idx None = Inr (\<lparr>dims = [B, T, vs], elems = xs\<rparr>, None)"
    by (simp add: forward_def ls ne' xs_def)
  from tg(1) have tgne: "tg \<noteq> []" using idx(1) by auto
  then have sh: "ids_shape tg = [B, T]"
    using tg(1,2) by (cases tg) (simp_all add: ids_shape_def B_def T_def)
  have len: "length (concat tg) = B * T"
    using length_concat_rect [OF tg(2)] tg(1) by (simp add: B_def T_def)
  have rng: "\<forall>t \<in> set (concat tg). 0 \<le> t \<and> t < int vs"
    using tg(3) by auto
  have tv: "tensor_view \<lparr>dims = [B, T, vs], elems = xs\<rparr> [B * T, vs] =
      Inr \<lparr>dims = [B * T, vs], elems = xs\<rparr>"
    by (simp add: tensor_view_def view_def numel_def)
  have vw: "view [numel (ids_shape tg)] [B * T] = Inr [B * T]"
    by (simp add: sh view_def numel_def)
  note ce = cross_entropy_mean [OF len rng, of xs]
  have 2: "forward hp mdl net idx (Some tg) =
      Inr (\<lparr>dims = [B * T, vs], elems = xs\<rparr>,
           Some ((\<Sum>n < B * T. - ln (softmax (row \<lparr>dims = [B * T, vs], elems = xs\<rparr> n)
                   ! nat (concat tg ! n))) / real (B * T)))"
    by (simp add: forward_def ls ne' xs_def [symmetric] tv vw ce)
  have 3: "\<forall>b < B. \<forall>t < T. concat tg ! (b * T + t) = tg ! b ! t"
    using concat_nth_rect [of tg T] tg(1,2) by (simp add: B_def T_def)
  have 4: "\<forall>idx' targets logits loss.
      forward hp mdl net idx' targets = Inr (logits, loss) \<longrightarrow> (loss = None) = (targets = None)"
    using forward_loss_iff by blast
  from 1 2 3 4 show ?thesis unfolding B_def T_def xs_def by blast
qed

theorem forward_loss_witness:
  "\<exists>mdl logits loss.
     BigramLanguageModel \<lparr>batch_size = 1, block_size = 2, n_embed = 4, n_head = 2, n_layer = 1,
        dropout = 0\<rparr> 3 = Inr mdl \<and>
     forward \<lparr>batch_size = 1, block_size = 2, n_embed = 4, n_head = 2, n_layer = 1,
        dropout = 0\<rparr> mdl (\<lambda>idx k. 0) [[0, 1]] None =
       Inr (\<lparr>dims = [1, 2, 3], elems = [0, 0, 0, 0, 0, 0]\<rparr>, None) \<and>
     forward \<lparr>batch_size = 1, block_size = 2, n_embed = 4, n_head = 2, n_layer = 1,
        dropout = 0\<rparr> mdl (\<lambda>idx k. 0) [[0, 1]] (Some [[1, 2]]) = Inr (logits, Some loss) \<and>
     dims logits = [2, 3]"
proof -
  define hp where "hp = \<lparr>batch_size = 1, block_size = 2, n_embed = 4, n_head = 2, n_layer = 1,
        dropout = 0\<rparr>"
  obtain mdl where mdl: "BigramLanguageModel hp 3 = Inr mdl"
    using BigramLanguageModel_ok [of hp 3] by (auto simp: hp_def)
  have h: "0 < n_head hp" "n_head hp dvd n_embed hp" "0 < n_embed hp" "0 < block_size hp"
    by (simp_all add: hp_def)
  have i: "[[0, 1 :: int]] \<noteq> []" "\<forall>r \<in> set [[0, 1 :: int]]. length r = block_size hp"
    "\<forall>r \<in> set [[0, 1 :: int]]. \<forall>i \<in> set r. 0 \<le> i \<and> i < int 3"
    by (simp_all add: hp_def)
  have t: "length [[1, 2 :: int]] = length [[0, 1 :: int]]"
    "\<forall>r \<in> set [[1, 2 :: int]]. length r = block_size hp"
    "\<forall>r \<in> set [[1, 2 :: int]]. \<forall>t \<in> set r. 0 \<le> t \<and> t < int 3"
    by (simp_all add: hp_def)
  have up: "[0..<6] = [0, 1, 2, 3, 4, 5]" by (simp add: upt_rec)
  note fl = forward_loss [OF mdl h i t, of "\<lambda>idx k. 0"]
  from fl have c1: "forward hp mdl (\<lambda>idx k. 0) [[0, 1]] None =
      Inr (\<lparr>dims = [1, 2, 3], elems = [0, 0, 0, 0, 0, 0]\<rparr>, None)"
    by (simp add: hp_def up)
  have c2: "\<exists>logits loss. forward hp mdl (\<lambda>idx k. 0) [[0, 1]] (Some [[1, 2]]) =
      Inr (logits, Some loss) \<and> dims logits = [2, 3]"
    apply (rule exI, rule exI, rule conjI)
     apply (rule fl [THEN conjunct2, THEN conjunct1])
    apply (simp add: hp_def)
    done
  from mdl c1 c2 show ?thesis unfolding hp_def [symmetric] by blast
qed


section \<open>Autoregressive generation\<close>
















section \<open>Causal masking\<close>

lemma fround_zero: "rnd F 0 = 0 \<Longrightarrow> 0 \<le> fmax F \<Longrightarrow> fround F 0 = Fin 0"
  by (simp add: fround_def)

lemma masked_exponential:
  "fexp_num F (fsub F NInf mx) = Fin 0 \<or> fexp_num F (fsub F NInf mx) = NaN"
  by (cases mx) (simp_all add: fsub_def)

lemma zero_quotient:
  assumes "rnd F 0 = 0" and "0 \<le> fmax F" and "e = Fin 0 \<or> e = NaN"
  shows "fdiv F e s = Fin 0 \<or> fdiv F e s = NaN"
  using assms by (cases s) (auto simp: fround_zero)

lemma softmax_row_nth:
  "j < length xs \<Longrightarrow>
   softmax_row F xs ! j =
     fdiv F (fexp_num F (fsub F (xs ! j) (foldl fmaximum NInf xs)))
       (fsum F (map (\<lambda>x. fexp_num F (fsub F x (foldl fmaximum NInf xs))) xs))"
  by (simp add: softmax_row_def Let_def)

lemma masked_weight:
  assumes "rnd F 0 = 0" and "0 \<le> fmax F" and "j < length xs" and "xs ! j = NInf"
  shows "softmax_row F xs ! j = Fin 0 \<or> softmax_row F xs ! j = NaN"
  unfolding softmax_row_nth [OF assms(3)] assms(4)
  by (rule zero_quotient [OF assms(1,2) masked_exponential])

lemma masked_term:
  assumes "p = Fin 0 \<or> p = NaN" and "is_fin v" and "is_fin v'"
  shows "fmul F p v = fmul F p v'"
  using assms by (cases v; cases v') auto

lemma masked_fill_row:
  assumes "i < length q"
  shows "masked_fill bs (scale F hs (matmul_transposed F q k)) ! i =
     map (\<lambda>j. if mask_entry bs i j = 0 then NInf
               else fmul F (dot F (q ! i) (k ! j)) (fround F (1 / sqrt (real hs))))
       [0..<length k]"
proof -
  have len: "length (scale F hs (matmul_transposed F q k)) = length q"
    by (simp add: scale_def matmul_transposed_def)
  have rw: "scale F hs (matmul_transposed F q k) ! i =
      map (\<lambda>kj. fmul F (dot F (q ! i) kj) (fround F (1 / sqrt (real hs)))) k"
    using assms by (simp add: scale_def matmul_transposed_def)
  have "masked_fill bs (scale F hs (matmul_transposed F q k)) ! i =
      map (\<lambda>j. if mask_entry bs i j = 0 then NInf
                else map (\<lambda>kj. fmul F (dot F (q ! i) kj) (fround F (1 / sqrt (real hs)))) k ! j)
        [0..<length k]"
    using assms by (simp add: masked_fill_def len rw)
  also have "\<dots> = map (\<lambda>j. if mask_entry bs i j = 0 then NInf
                else fmul F (dot F (q ! i) (k ! j)) (fround F (1 / sqrt (real hs))))
        [0..<length k]"
    by (rule map_cong [OF refl]) simp
  finally show ?thesis .
qed

lemma attention_head_row:
  assumes "i < length q"
  shows "attention_head F bs hs q k v ! i =
     map (\<lambda>d. fsum F (map (\<lambda>j.
         fmul F (softmax_row F
           (map (\<lambda>j. if mask_entry bs i j = 0 then NInf
                      else fmul F (dot F (q ! i) (k ! j)) (fround F (1 / sqrt (real hs))))
                [0..<length k]) ! j) (v ! j ! d)) [0..<length v])) [0..<hs]"
proof -
  have len: "length (masked_fill bs (scale F hs (matmul_transposed F q k))) = length q"
    by (simp add: masked_fill_def scale_def matmul_transposed_def)
  show ?thesis
    using assms
    by (simp add: attention_head_def Let_def matmul_values_def len
        masked_fill_row [OF assms])
qed

lemma attention_head_length: "length (attention_head F bs hs q k v) = length q"
  by (simp add: attention_head_def matmul_values_def masked_fill_def scale_def
      matmul_transposed_def Let_def)

lemma attention_head_causal:
  assumes F: "rnd F 0 = 0" "0 \<le> fmax F"
    and len: "length q = T" "length k = T" "length v = T" "length q' = T" "length k' = T"
      "length v' = T"
    and i: "i < T" and T: "T \<le> bs"
    and q: "q ! i = q' ! i"
    and kv: "\<forall>j \<le> i. k ! j = k' ! j \<and> v ! j = v' ! j"
    and fin: "\<forall>j. i < j \<and> j < T \<longrightarrow> (\<forall>d < hs. is_fin (v ! j ! d) \<and> is_fin (v' ! j ! d))"
  shows "attention_head F bs hs q k v ! i = attention_head F bs hs q' k' v' ! i"
proof -
  define c where "c = fround F (1 / sqrt (real hs))"
  define ms where "ms = map (\<lambda>j. if mask_entry bs i j = 0 then NInf
                           else fmul F (dot F (q ! i) (k ! j)) c) [0..<T]"
  define ms' where "ms' = map (\<lambda>j. if mask_entry bs i j = 0 then NInf
                           else fmul F (dot F (q' ! i) (k' ! j)) c) [0..<T]"
  have masked: "mask_entry bs i j = 0" if "i < j" "j < T" for j
  proof -
    from that i T have "bs \<noteq> 1" by simp
    with that show ?thesis by (simp add: mask_entry_def tril_entry_def)
  qed
  have eq: "ms = ms'"
    unfolding ms_def ms'_def
  proof (rule map_cong [OF refl])
    fix j assume "j \<in> set [0..<T]"
    then have j: "j < T" by simp
    show "(if mask_entry bs i j = 0 then NInf else fmul F (dot F (q ! i) (k ! j)) c) =
          (if mask_entry bs i j = 0 then NInf else fmul F (dot F (q' ! i) (k' ! j)) c)"
    proof (cases "j \<le> i")
      case True
      with kv q show ?thesis by simp
    next
      case False
      with masked [of j] j show ?thesis by simp
    qed
  qed
  have weight: "softmax_row F ms ! j = Fin 0 \<or> softmax_row F ms ! j = NaN"
    if "i < j" "j < T" for j
  proof (rule masked_weight [OF F])
    show "j < length ms" using that by (simp add: ms_def)
    show "ms ! j = NInf" using that masked [OF that] by (simp add: ms_def)
  qed
  have tm: "fmul F (softmax_row F ms ! j) (v ! j ! d) = fmul F (softmax_row F ms ! j) (v' ! j ! d)"
    if "j < T" "d < hs" for j d
  proof (cases "j \<le> i")
    case True
    with kv show ?thesis by simp
  next
    case False
    then have ij: "i < j" by simp
    from fin ij that have "is_fin (v ! j ! d)" "is_fin (v' ! j ! d)" by simp_all
    with weight [OF ij that(1)] show ?thesis by (rule masked_term)
  qed
  have S: "map (\<lambda>d. fsum F (map (\<lambda>j. fmul F (softmax_row F ms ! j) (v ! j ! d)) [0..<T])) [0..<hs] =
        map (\<lambda>d. fsum F (map (\<lambda>j. fmul F (softmax_row F ms ! j) (v' ! j ! d)) [0..<T])) [0..<hs]"
  proof (rule map_cong [OF refl])
    fix d assume "d \<in> set [0..<hs]"
    then have d: "d < hs" by simp
    have "map (\<lambda>j. fmul F (softmax_row F ms ! j) (v ! j ! d)) [0..<T] =
          map (\<lambda>j. fmul F (softmax_row F ms ! j) (v' ! j ! d)) [0..<T]"
      by (rule map_cong [OF refl]) (simp add: tm d)
    then show "fsum F (map (\<lambda>j. fmul F (softmax_row F ms ! j) (v ! j ! d)) [0..<T]) =
               fsum F (map (\<lambda>j. fmul F (softmax_row F ms ! j) (v' ! j ! d)) [0..<T])"
      by (simp only:)
  qed
  from i len have i': "i < length q" "i < length q'" by simp_all
  have L: "attention_head F bs hs q k v ! i =
      map (\<lambda>d. fsum F (map (\<lambda>j. fmul F (softmax_row F ms ! j) (v ! j ! d)) [0..<T])) [0..<hs]"
    unfolding attention_head_row [OF i'(1)] ms_def c_def len by (rule refl)
  have R: "attention_head F bs hs q' k' v' ! i =
      map (\<lambda>d. fsum F (map (\<lambda>j. fmul F (softmax_row F ms' ! j) (v' ! j ! d)) [0..<T])) [0..<hs]"
    unfolding attention_head_row [OF i'(2)] ms'_def c_def len by (rule refl)
  show ?thesis unfolding L R eq [symmetric] by (rule S)
qed


lemma attend_row:
  assumes "i < length xb"
  shows "attend F hp m w C xb ! i =
     linear_values F (proj m) (proj_weight w) (proj_bias w)
       (concat (map (\<lambda>h. attention_head F (block_size hp) (C div n_head hp)
           (map (\<lambda>x. head_of (C div n_head hp) h (query_projection F hp m w x)) xb)
           (map (\<lambda>x. head_of (C div n_head hp) h (key_projection F hp m w x)) xb)
           (map (\<lambda>x. head_of (C div n_head hp) h (value_projection F hp m w x)) xb) ! i)
         [0..<n_head hp]))"
  using assms by (simp add: attend_def Let_def comp_def)

lemma attend_length: "length (attend F hp m w C xb) = length xb"
  by (simp add: attend_def Let_def)

lemma attend_row_length:
  "i < length xb \<Longrightarrow> length (attend F hp m w C xb ! i) = out_features (proj m)"
  by (simp add: attend_def Let_def linear_values_def)

lemma value_projection_length:
  "out_features (attn m) = 3 * n_embed hp \<Longrightarrow>
   length (value_projection F hp m w x) = n_embed hp"
  by (simp add: value_projection_def linear_values_def)

lemma head_entry_finite:
  assumes "list_all is_fin r" and "n * hs \<le> length r" and "h < n" and "d < hs"
  shows "is_fin (head_of hs h r ! d)"
proof -
  from assms(3) have "Suc h * hs \<le> n * hs" by (intro mult_le_mono1) simp
  with assms(2,4) have lt: "h * hs + d < length r" by simp
  with assms(4) have "head_of hs h r ! d = r ! (h * hs + d)"
    by (simp add: head_of_def)
  moreover from assms(1) lt have "is_fin (r ! (h * hs + d))"
    by (simp add: list_all_length)
  ultimately show ?thesis by simp
qed

lemma attend_causal:
  assumes F: "rnd F 0 = 0" "0 \<le> fmax F"
    and len: "length xb = T" "length xb' = T" and i: "i < T" and T: "T \<le> block_size hp"
    and agree: "\<forall>t \<le> i. xb ! t = xb' ! t"
    and out: "out_features (attn m) = 3 * n_embed hp"
    and heads: "n_head hp * (C div n_head hp) \<le> n_embed hp"
    and fin: "\<forall>t. i < t \<and> t < T \<longrightarrow>
        list_all is_fin (value_projection F hp m w (xb ! t)) \<and>
        list_all is_fin (value_projection F hp m w (xb' ! t))"
  shows "attend F hp m w C xb ! i = attend F hp m w C xb' ! i"
proof -
  define hs where "hs = C div n_head hp"
  define fq where "fq h x = head_of hs h (query_projection F hp m w x)" for h x
  define fk where "fk h x = head_of hs h (key_projection F hp m w x)" for h x
  define fv where "fv h x = head_of hs h (value_projection F hp m w x)" for h x
  have head: "attention_head F (block_size hp) hs (map (fq h) xb) (map (fk h) xb) (map (fv h) xb) ! i =
      attention_head F (block_size hp) hs (map (fq h) xb') (map (fk h) xb') (map (fv h) xb') ! i"
    if h: "h < n_head hp" for h
  proof (rule attention_head_causal [OF F, where T = T])
    show "map (fq h) xb ! i = map (fq h) xb' ! i"
      using agree i len by simp
    show "\<forall>j \<le> i. map (fk h) xb ! j = map (fk h) xb' ! j \<and>
                  map (fv h) xb ! j = map (fv h) xb' ! j"
      using agree i len by simp
    show "\<forall>j. i < j \<and> j < T \<longrightarrow>
        (\<forall>d < hs. is_fin (map (fv h) xb ! j ! d) \<and> is_fin (map (fv h) xb' ! j ! d))"
    proof (intro allI impI)
      fix j d assume j: "i < j \<and> j < T" and d: "d < hs"
      from fin j have f: "list_all is_fin (value_projection F hp m w (xb ! j))"
        "list_all is_fin (value_projection F hp m w (xb' ! j))" by simp_all
      have l: "n_head hp * hs \<le> length (value_projection F hp m w x)" for x
        using heads by (simp add: value_projection_length [OF out] hs_def)
      from head_entry_finite [OF f(1) l h d] head_entry_finite [OF f(2) l h d] j len
      show "is_fin (map (fv h) xb ! j ! d) \<and> is_fin (map (fv h) xb' ! j ! d)"
        by (simp add: fv_def)
    qed
  qed (simp_all add: len i T)
  have hm: "map (\<lambda>h. attention_head F (block_size hp) hs
            (map (fq h) xb) (map (fk h) xb) (map (fv h) xb) ! i) [0..<n_head hp] =
        map (\<lambda>h. attention_head F (block_size hp) hs
            (map (fq h) xb') (map (fk h) xb') (map (fv h) xb') ! i) [0..<n_head hp]"
    by (rule map_cong [OF refl]) (simp add: head)
  have "attend F hp m w C xb ! i =
      linear_values F (proj m) (proj_weight w) (proj_bias w)
        (concat (map (\<lambda>h. attention_head F (block_size hp) hs
            (map (fq h) xb) (map (fk h) xb) (map (fv h) xb) ! i) [0..<n_head hp]))"
    using i len unfolding fq_def fk_def fv_def hs_def
    by (simp only: attend_row)
  also have "\<dots> = linear_values F (proj m) (proj_weight w) (proj_bias w)
        (concat (map (\<lambda>h. attention_head F (block_size hp) hs
            (map (fq h) xb') (map (fk h) xb') (map (fv h) xb') ! i) [0..<n_head hp]))"
    by (simp only: hm)
  also have "\<dots> = attend F hp m w C xb' ! i"
    using i len unfolding fq_def fk_def fv_def hs_def
    by (simp only: attend_row)
  finally show ?thesis .
qed

lemma chunk_of_concat:
  assumes "\<forall>r \<in> set xss. length r = n" and "b < length xss"
  shows "take n (drop (b * n) (concat xss)) = xss ! b"
  using assms
proof (induction xss arbitrary: b)
  case Nil
  then show ?case by simp
next
  case (Cons r xss)
  show ?case
  proof (cases b)
    case 0
    with Cons.prems show ?thesis by simp
  next
    case (Suc b')
    with Cons.prems have "take n (drop (b' * n) (concat xss)) = xss ! b'"
      by (intro Cons.IH) simp_all
    with Suc Cons.prems show ?thesis by simp
  qed
qed

lemma fpos_of_batches:
  assumes rows: "\<forall>b < B. length (f b) = T \<and> (\<forall>t < T. length (f b ! t) = C)"
    and b: "b < B" and t: "t < T"
  shows "fpos \<lparr>fdims = [B, T, C], felems = concat (map (\<lambda>b. concat (f b)) [0..<B])\<rparr> b t = f b ! t"
proof -
  define ys where "ys = concat (map (\<lambda>b. concat (f b)) [0..<B])"
  have lenb: "length (concat (f b)) = T * C" if "b < B" for b
  proof -
    from rows that have "\<forall>r \<in> set (f b). length r = C"
      by (auto simp: in_set_conv_nth)
    from length_concat_rect [OF this] rows that show ?thesis by simp
  qed
  have 1: "take (T * C) (drop (b * (T * C)) ys) = concat (f b)"
    unfolding ys_def using chunk_of_concat [of "map (\<lambda>b. concat (f b)) [0..<B]" "T * C" b] lenb b
    by simp
  from rows b have rc: "\<forall>r \<in> set (f b). length r = C" "t < length (f b)"
    using t by (auto simp: in_set_conv_nth)
  have 2: "take C (drop (t * C) (concat (f b))) = f b ! t"
    using chunk_of_concat [OF rc] .
  from t have le: "t * C + C \<le> T * C"
    by (metis Suc_leI mult_Suc mult_le_mono1 add.commute)
  have "take C (drop ((b * T + t) * C) ys) = take C (drop (t * C) (drop (b * (T * C)) ys))"
    by (simp add: algebra_simps)
  also have "\<dots> = take C (drop (t * C) (take (T * C) (drop (b * (T * C)) ys)))"
    using le by (simp add: drop_take)
  also have "\<dots> = f b ! t" by (simp only: 1 2)
  finally show ?thesis by (simp add: fpos_def ys_def)
qed

lemma mha_forward_result:
  assumes "mha_forward hp m [B, T, C] = Inr s"
  shows "s = [B, T, out_features (proj m)]"
  using assms
  by (auto simp: mha_forward_def ebind_def view_def linear_forward_def
      split: sum.splits list.splits if_splits)

lemma mha_forward_in_features:
  assumes "mha_forward hp m [B, T, C] = Inr s"
  shows "C = in_features (attn m)"
proof -
  from assms obtain a where "linear_forward (attn m) [B, T, C] = Inr a"
    by (auto simp: mha_forward_def ebind_def split: sum.splits)
  then show ?thesis by (simp add: linear_forward_def split: if_splits)
qed

lemma mha_forward_heads:
  assumes m: "MultiHeadAttention hp (n_embed hp) = Inr m"
    and ok: "mha_forward hp m [B, T, C] = Inr s" and B: "0 < B" and T: "0 < T"
  shows "n_head hp * (C div n_head hp) = n_embed hp"
proof -
  from m have am: "attn m = Linear (n_embed hp) (3 * n_embed hp)"
    by (auto simp: MultiHeadAttention_def ebind_def split: sum.splits)
  from mha_forward_in_features [OF ok] am have C: "C = n_embed hp" by (simp add: Linear_def)
  have lin: "linear_forward (attn m) [B, T, C] = Inr [B, T, 3 * C]"
    by (simp add: am C linear_forward_def Linear_def)
  have ne: "0 < C"
  proof (rule ccontr)
    assume "\<not> 0 < C"
    then have "C = 0" by simp
    with ok lin C show False
      by (simp add: mha_forward_def split_shape_def split_sizes_def norm_dim_def)
  qed
  have sp: "split_shape [B, T, 3 * C] C 2 = Inr [[B, T, C], [B, T, C], [B, T, C]]"
    using split_three [OF ne] .
  from ok obtain k where "to_heads hp B T C [B, T, C] = Inr k"
    by (auto simp: mha_forward_def lin sp C [symmetric] ebind_def split: sum.splits)
  then have "numel [B, T, C] = numel [B, T, n_head hp, C div n_head hp]"
    by (auto simp: to_heads_def view_def ebind_def split: if_splits)
  with B T have "C = n_head hp * (C div n_head hp)" by (simp add: numel_def)
  with C show ?thesis by simp
qed


lemma mha_values_pos:
  assumes d: "fdims x = [B, T, C]" and ok: "mha_forward hp m [B, T, C] = Inr s"
    and b: "b < B" and i: "i < T"
  shows "\<exists>y. mha_values F hp m w x = Inr y \<and> fdims y = [B, T, out_features (proj m)] \<and>
           fpos y b i = attend F hp m w C (map (fpos x b) [0..<T]) ! i"
proof -
  from mha_forward_result [OF ok] have s: "s = [B, T, out_features (proj m)]" .
  define f where "f b = attend F hp m w C (map (fpos x b) [0..<T])" for b
  have rows: "\<forall>b < B. length (f b) = T \<and> (\<forall>t < T. length (f b ! t) = out_features (proj m))"
    by (simp add: f_def attend_length attend_row_length)
  have "mha_values F hp m w x =
      Inr \<lparr>fdims = [B, T, out_features (proj m)],
           felems = concat (map (\<lambda>b. concat (f b)) [0..<B])\<rparr>"
    by (simp add: mha_values_def d ok s f_def)
  moreover from fpos_of_batches [OF rows b i]
  have "fpos \<lparr>fdims = [B, T, out_features (proj m)],
           felems = concat (map (\<lambda>b. concat (f b)) [0..<B])\<rparr> b i = f b ! i" .
  ultimately show ?thesis by (simp add: f_def)
qed

text \<open>
  Claim C2, as the code has it. The mask makes the weights of the later positions exact
  zeros, but \<^verbatim>\<open>att @ v\<close> still multiplies them with the values of these positions, and
  \<open>0 \<times> \<infinity>\<close> and \<open>0 \<times> NaN\<close> are NaN. Take a layer built by the constructor, a
  floating-point format that rounds 0 to 0, and two inputs of one shape \<open>(B, T, C)\<close> with
  \<open>T \<le> block_size\<close> that agree, in batch element \<open>b\<close>, at every position \<open>t \<le> i\<close>; at the
  positions after \<open>i\<close>, and in the other batch elements, they may differ, as long as the value
  projection of every position after \<open>i\<close> is finite in both. Then the forward pass, in
  evaluation mode, either raises the same exception on both (it depends on the shape
  only), or returns two outputs that are equal at position \<open>i\<close> of batch element \<open>b\<close>.
\<close>

theorem causal_mask:
  assumes m: "MultiHeadAttention hp (n_embed hp) = Inr m"
    and F: "rnd F 0 = 0" "0 \<le> fmax F"
    and d: "fdims x = [B, T, C]" and d': "fdims x' = [B, T, C]"
    and T: "T \<le> block_size hp" and b: "b < B" and i: "i < T"
    and agree: "\<forall>t \<le> i. fpos x b t = fpos x' b t"
    and fin: "\<forall>t. i < t \<and> t < T \<longrightarrow>
        list_all is_fin (value_projection F hp m w (fpos x b t)) \<and>
        list_all is_fin (value_projection F hp m w (fpos x' b t))"
  shows "(\<exists>e. mha_values F hp m w x = Inl e \<and> mha_values F hp m w x' = Inl e) \<or>
         (\<exists>y y'. mha_values F hp m w x = Inr y \<and> mha_values F hp m w x' = Inr y' \<and>
                  fdims y = fdims y' \<and> fpos y b i = fpos y' b i)"
proof (cases "mha_forward hp m [B, T, C]")
  case (Inl e)
  then show ?thesis by (simp add: mha_values_def d d')
next
  case (Inr s)
  from m have am: "attn m = Linear (n_embed hp) (3 * n_embed hp)"
    by (auto simp: MultiHeadAttention_def ebind_def split: sum.splits)
  then have out: "out_features (attn m) = 3 * n_embed hp" by (simp add: Linear_def)
  from b i have "0 < B" "0 < T" by simp_all
  from mha_forward_heads [OF m Inr this]
  have heads: "n_head hp * (C div n_head hp) \<le> n_embed hp" by simp
  from mha_values_pos [OF d Inr b i, of F w] obtain y where
    y: "mha_values F hp m w x = Inr y" "fdims y = [B, T, out_features (proj m)]"
      "fpos y b i = attend F hp m w C (map (fpos x b) [0..<T]) ! i" by blast
  from mha_values_pos [OF d' Inr b i, of F w] obtain y' where
    y': "mha_values F hp m w x' = Inr y'" "fdims y' = [B, T, out_features (proj m)]"
      "fpos y' b i = attend F hp m w C (map (fpos x' b) [0..<T]) ! i" by blast
  have "attend F hp m w C (map (fpos x b) [0..<T]) ! i =
        attend F hp m w C (map (fpos x' b) [0..<T]) ! i"
  proof (rule attend_causal [OF F, where T = T])
    show "\<forall>t \<le> i. map (fpos x b) [0..<T] ! t = map (fpos x' b) [0..<T] ! t"
      using agree i by simp
    show "\<forall>t. i < t \<and> t < T \<longrightarrow>
        list_all is_fin (value_projection F hp m w (map (fpos x b) [0..<T] ! t)) \<and>
        list_all is_fin (value_projection F hp m w (map (fpos x' b) [0..<T] ! t))"
      using fin by simp
  qed (simp_all add: i T out heads)
  with y y' show ?thesis by simp
qed


text \<open>A small layer, evaluated.\<close>

lemma example_forward:
  "mha_forward \<lparr>batch_size = 1, block_size = 2, n_embed = 1, n_head = 1, n_layer = 1, dropout = 0\<rparr>
     \<lparr>attn = Linear 1 3, proj = Linear 1 1, attn_dropout = 0, resid_dropout = 0, tril = [2, 2]\<rparr>
     [1, 2, 1] = Inr [1, 2, 1]"
proof -
  define hp where
    "hp = \<lparr>batch_size = 1, block_size = 2, n_embed = 1, n_head = 1, n_layer = 1, dropout = 0\<rparr>"
  have m: "MultiHeadAttention hp (n_embed hp) =
      Inr \<lparr>attn = Linear 1 3, proj = Linear 1 1, attn_dropout = 0, resid_dropout = 0,
           tril = [2, 2]\<rparr>"
    by (simp add: MultiHeadAttention_def Dropout_def hp_def)
  from mha_forward_full [OF m, of 2 1] show ?thesis
    by (simp add: hp_def)
qed

lemmas attend_unfold = attend_def Let_def query_projection_def key_projection_def
      value_projection_def linear_values_def Linear_def dot_def fsum_def head_of_def
      attention_head_def scale_def matmul_transposed_def masked_fill_def mask_entry_def
      tril_entry_def softmax_row_def matmul_values_def fsub_def fround_def single_range_def
      upt_rec

lemma example_row_finite:
  "attend single_range
     \<lparr>batch_size = 1, block_size = 2, n_embed = 1, n_head = 1, n_layer = 1, dropout = 0\<rparr>
     \<lparr>attn = Linear 1 3, proj = Linear 1 1, attn_dropout = 0, resid_dropout = 0, tril = [2, 2]\<rparr>
     \<lparr>attn_weight = [[Fin 0], [Fin 0], [Fin 2]], attn_bias = [Fin 0, Fin 0, Fin 0],
      proj_weight = [[Fin 1]], proj_bias = [Fin 0]\<rparr> 1 [[Fin 1], [Fin 1]] ! 0 = [Fin 2]"
  by (simp add: attend_unfold)

lemma example_row_overflow:
  "attend single_range
     \<lparr>batch_size = 1, block_size = 2, n_embed = 1, n_head = 1, n_layer = 1, dropout = 0\<rparr>
     \<lparr>attn = Linear 1 3, proj = Linear 1 1, attn_dropout = 0, resid_dropout = 0, tril = [2, 2]\<rparr>
     \<lparr>attn_weight = [[Fin 0], [Fin 0], [Fin 2]], attn_bias = [Fin 0, Fin 0, Fin 0],
      proj_weight = [[Fin 1]], proj_bias = [Fin 0]\<rparr> 1
     [[Fin 1], [Fin 340282346638528859811704183484516925440]] ! 0 = [NaN]"
  by (simp add: attend_unfold)


theorem causal_mask_witness:
  "fpos \<lparr>fdims = [1, 2, 1], felems = [Fin 1, Fin 1]\<rparr> 0 1 \<noteq> fpos \<lparr>fdims = [1, 2, 1], felems = [Fin 1, Fin 5]\<rparr> 0 1 \<and>
   (\<exists>y y'.
      mha_values single_range \<lparr>batch_size = 1, block_size = 2, n_embed = 1, n_head = 1, n_layer = 1, dropout = 0\<rparr>
        \<lparr>attn = Linear 1 3, proj = Linear 1 1, attn_dropout = 0, resid_dropout = 0, tril = [2, 2]\<rparr>
        \<lparr>attn_weight = [[Fin 0], [Fin 0], [Fin 2]], attn_bias = [Fin 0, Fin 0, Fin 0],
         proj_weight = [[Fin 1]], proj_bias = [Fin 0]\<rparr>
        \<lparr>fdims = [1, 2, 1], felems = [Fin 1, Fin 1]\<rparr> = Inr y \<and>
      mha_values single_range \<lparr>batch_size = 1, block_size = 2, n_embed = 1, n_head = 1, n_layer = 1, dropout = 0\<rparr>
        \<lparr>attn = Linear 1 3, proj = Linear 1 1, attn_dropout = 0, resid_dropout = 0, tril = [2, 2]\<rparr>
        \<lparr>attn_weight = [[Fin 0], [Fin 0], [Fin 2]], attn_bias = [Fin 0, Fin 0, Fin 0],
         proj_weight = [[Fin 1]], proj_bias = [Fin 0]\<rparr>
        \<lparr>fdims = [1, 2, 1], felems = [Fin 1, Fin 5]\<rparr> = Inr y' \<and>
      fpos y 0 0 = fpos y' 0 0)"
proof -
  define hp where
    "hp = \<lparr>batch_size = 1, block_size = 2, n_embed = 1, n_head = 1, n_layer = 1, dropout = 0\<rparr>"
  define m where
    "m = \<lparr>attn = Linear 1 3, proj = Linear 1 1, attn_dropout = 0, resid_dropout = 0, tril = [2, 2]\<rparr>"
  define w where
    "w = \<lparr>attn_weight = [[Fin 0], [Fin 0], [Fin 2]], attn_bias = [Fin 0, Fin 0, Fin 0],
         proj_weight = [[Fin 1]], proj_bias = [Fin 0]\<rparr>"
  define x where "x = \<lparr>fdims = [1, 2, 1], felems = [Fin 1, Fin 1]\<rparr>"
  define x' where "x' = \<lparr>fdims = [1, 2, 1], felems = [Fin 1, Fin 5]\<rparr>"
  have m: "MultiHeadAttention hp (n_embed hp) = Inr m"
    by (simp add: MultiHeadAttention_def Dropout_def hp_def m_def)
  have ok: "mha_forward hp m [1, 2, 1] = Inr [1, 2, 1]"
    unfolding hp_def m_def by (rule example_forward)
  then have nofail: "mha_values single_range hp m w x \<noteq> Inl e" for e
    by (simp add: mha_values_def x_def)
  have fin: "\<forall>t. 0 < t \<and> t < 2 \<longrightarrow>
        list_all is_fin (value_projection single_range hp m w (fpos x 0 t)) \<and>
        list_all is_fin (value_projection single_range hp m w (fpos x' 0 t))"
  proof (intro allI impI)
    fix t :: nat assume "0 < t \<and> t < 2"
    then have t: "t = 1" by simp
    show "list_all is_fin (value_projection single_range hp m w (fpos x 0 t)) \<and>
        list_all is_fin (value_projection single_range hp m w (fpos x' 0 t))"
      unfolding t
      by (simp add: x_def x'_def fpos_def hp_def m_def w_def attend_unfold)
  qed
  have h: "rnd single_range 0 = 0" "0 \<le> fmax single_range"
    "fdims x = [1, 2, 1]" "fdims x' = [1, 2, 1]" "2 \<le> block_size hp" "(0::nat) < 1"
    "(0::nat) < 2" "\<forall>t \<le> 0. fpos x 0 t = fpos x' 0 t"
    by (simp_all add: x_def x'_def hp_def fpos_def single_range_def)
  from causal_mask [OF m h fin] nofail
  have "\<exists>y y'. mha_values single_range hp m w x = Inr y \<and>
      mha_values single_range hp m w x' = Inr y' \<and> fpos y 0 0 = fpos y' 0 0" by auto
  moreover have "fpos x 0 1 \<noteq> fpos x' 0 1" by (simp add: x_def x'_def fpos_def)
  ultimately show ?thesis unfolding hp_def m_def w_def x_def x'_def by blast
qed

text \<open>
  One head, one feature, two positions, a value weight of 2. The two inputs agree at
  position 0; at position 1 one holds 1 and the other the largest finite single-precision
  number, whose value projection overflows to \<open>\<infinity>\<close>. The output at position 0 is 2 for the
  first input and NaN for the second.
\<close>

theorem causal_mask_overflow:
  "MultiHeadAttention \<lparr>batch_size = 1, block_size = 2, n_embed = 1, n_head = 1, n_layer = 1, dropout = 0\<rparr> 1 = Inr \<lparr>attn = Linear 1 3, proj = Linear 1 1, attn_dropout = 0, resid_dropout = 0, tril = [2, 2]\<rparr> \<and>
   fpos \<lparr>fdims = [1, 2, 1], felems = [Fin 1, Fin 1]\<rparr> 0 0 = fpos \<lparr>fdims = [1, 2, 1], felems = [Fin 1, Fin 340282346638528859811704183484516925440]\<rparr> 0 0 \<and>
   ebind (mha_values single_range \<lparr>batch_size = 1, block_size = 2, n_embed = 1, n_head = 1, n_layer = 1, dropout = 0\<rparr>
            \<lparr>attn = Linear 1 3, proj = Linear 1 1, attn_dropout = 0, resid_dropout = 0, tril = [2, 2]\<rparr>
            \<lparr>attn_weight = [[Fin 0], [Fin 0], [Fin 2]], attn_bias = [Fin 0, Fin 0, Fin 0],
         proj_weight = [[Fin 1]], proj_bias = [Fin 0]\<rparr>
            \<lparr>fdims = [1, 2, 1], felems = [Fin 1, Fin 1]\<rparr>)
     (\<lambda>y. Inr (fpos y 0 0)) = Inr [Fin 2] \<and>
   ebind (mha_values single_range \<lparr>batch_size = 1, block_size = 2, n_embed = 1, n_head = 1, n_layer = 1, dropout = 0\<rparr>
            \<lparr>attn = Linear 1 3, proj = Linear 1 1, attn_dropout = 0, resid_dropout = 0, tril = [2, 2]\<rparr>
            \<lparr>attn_weight = [[Fin 0], [Fin 0], [Fin 2]], attn_bias = [Fin 0, Fin 0, Fin 0],
         proj_weight = [[Fin 1]], proj_bias = [Fin 0]\<rparr>
            \<lparr>fdims = [1, 2, 1], felems = [Fin 1, Fin 340282346638528859811704183484516925440]\<rparr>)
     (\<lambda>y. Inr (fpos y 0 0)) = Inr [NaN]"
proof -
  define hp where
    "hp = \<lparr>batch_size = 1, block_size = 2, n_embed = 1, n_head = 1, n_layer = 1, dropout = 0\<rparr>"
  define m where
    "m = \<lparr>attn = Linear 1 3, proj = Linear 1 1, attn_dropout = 0, resid_dropout = 0, tril = [2, 2]\<rparr>"
  define w where
    "w = \<lparr>attn_weight = [[Fin 0], [Fin 0], [Fin 2]], attn_bias = [Fin 0, Fin 0, Fin 0],
         proj_weight = [[Fin 1]], proj_bias = [Fin 0]\<rparr>"
  define x where "x = \<lparr>fdims = [1, 2, 1], felems = [Fin 1, Fin 1]\<rparr>"
  define x' where "x' = \<lparr>fdims = [1, 2, 1], felems = [Fin 1, Fin 340282346638528859811704183484516925440]\<rparr>"
  have m: "MultiHeadAttention hp 1 = Inr m"
    by (simp add: MultiHeadAttention_def Dropout_def hp_def m_def)
  have ok: "mha_forward hp m [1, 2, 1] = Inr [1, 2, 1]"
    unfolding hp_def m_def by (rule example_forward)
  have d: "fdims x = [1, 2, 1]" "fdims x' = [1, 2, 1]" by (simp_all add: x_def x'_def)
  have rows: "map (fpos x 0) [0..<2] = [[Fin 1], [Fin 1]]"
    "map (fpos x' 0) [0..<2] = [[Fin 1], [Fin 340282346638528859811704183484516925440]]"
    by (simp_all add: x_def x'_def fpos_def upt_rec)
  from mha_values_pos [OF d(1) ok, of 0 0 single_range w] obtain y where
    y: "mha_values single_range hp m w x = Inr y"
      "fpos y 0 0 = attend single_range hp m w 1 (map (fpos x 0) [0..<2]) ! 0" by auto
  from mha_values_pos [OF d(2) ok, of 0 0 single_range w] obtain y' where
    y': "mha_values single_range hp m w x' = Inr y'"
      "fpos y' 0 0 = attend single_range hp m w 1 (map (fpos x' 0) [0..<2]) ! 0" by auto
  have 1: "fpos y 0 0 = [Fin 2]"
    unfolding y(2) rows hp_def m_def w_def by (rule example_row_finite)
  have 2: "fpos y' 0 0 = [NaN]"
    unfolding y'(2) rows hp_def m_def w_def by (rule example_row_overflow)
  have 3: "fpos x 0 0 = fpos x' 0 0" by (simp add: x_def x'_def fpos_def)
  from m y(1) y'(1) 1 2 3 show ?thesis
    unfolding hp_def m_def w_def x_def x'_def by simp
qed


end
